theory Spec2Isabelle
  imports Main "HOL-Library.Word"
begin

section \<open>JavaScript strings\<close>

text \<open>
  A JavaScript string is a sequence of UTF-16 code units, and \<open>length\<close> counts code
  units. String literals of the source are written with \<open>js\<close>.
\<close>

type_synonym cu = "16 word"
type_synonym jsstring = "cu list"

definition js :: "string \<Rightarrow> jsstring" where
  "js s = map of_char s"

definition NL :: cu where
  "NL = 10"

text \<open>\<open>s.split(sep)\<close> for a separator of one code unit: never the empty array.\<close>

fun js_split :: "cu \<Rightarrow> jsstring \<Rightarrow> jsstring list" where
  "js_split sep [] = [[]]"
| "js_split sep (c # cs) =
     (if c = sep then [] # js_split sep cs
      else (c # hd (js_split sep cs)) # tl (js_split sep cs))"

text \<open>\<open>xs.join(sep)\<close> for a separator of one code unit.\<close>

fun js_join :: "cu \<Rightarrow> jsstring list \<Rightarrow> jsstring" where
  "js_join sep [] = []"
| "js_join sep [l] = l"
| "js_join sep (l # m # ls) = l @ sep # js_join sep (m # ls)"

text \<open>\<open>xs.slice(a, b)\<close> for \<open>0 \<le> a\<close>, \<open>0 \<le> b\<close>: an end past the array is clamped.\<close>

definition slice :: "'a list \<Rightarrow> nat \<Rightarrow> nat \<Rightarrow> 'a list" where
  "slice xs a b = take (b - a) (drop a xs)"

text \<open>
  The code units that \<open>trim\<close> strips and that \<open>\s\<close> matches: ECMAScript's WhiteSpace and
  LineTerminator.
\<close>

definition isWhiteSpace :: "cu \<Rightarrow> bool" where
  "isWhiteSpace c \<longleftrightarrow>
     c = 9 \<or> c = 10 \<or> c = 11 \<or> c = 12 \<or> c = 13 \<or> c = 32 \<or> c = 160 \<or> c = 0x1680 \<or>
     (0x2000 \<le> c \<and> c \<le> 0x200A) \<or> c = 0x2028 \<or> c = 0x2029 \<or> c = 0x202F \<or>
     c = 0x205F \<or> c = 0x3000 \<or> c = 0xFEFF"

text \<open>\<open>\w\<close> of a regular expression without flags: \<open>[A-Za-z0-9_]\<close>.\<close>

definition isWordChar :: "cu \<Rightarrow> bool" where
  "isWordChar c \<longleftrightarrow>
     (65 \<le> c \<and> c \<le> 90) \<or> (97 \<le> c \<and> c \<le> 122) \<or> (48 \<le> c \<and> c \<le> 57) \<or> c = 95"

definition trim :: "jsstring \<Rightarrow> jsstring" where
  "trim s = rev (dropWhile isWhiteSpace (rev (dropWhile isWhiteSpace s)))"

text \<open>
  \<open>toLowerCase\<close> on the letters A to Z; other code units are kept. The source only
  compares the result with lower-case ASCII names none of which holds a \<open>k\<close>, and the
  one code unit outside ASCII whose lower case is an ASCII letter is the Kelvin sign
  (lower case \<open>k\<close>), so every comparison of the source comes out as modelled.
\<close>

definition toLowerCase :: "jsstring \<Rightarrow> jsstring" where
  "toLowerCase s = map (\<lambda>c. if 65 \<le> c \<and> c \<le> 90 then c + 32 else c) s"

text \<open>\<open>s.includes(p)\<close>: \<open>p\<close> occurs in \<open>s\<close> as a substring.\<close>

fun includes_str :: "jsstring \<Rightarrow> jsstring \<Rightarrow> bool" where
  "includes_str [] p = (p = [])"
| "includes_str (c # cs) p = (take (length p) (c # cs) = p \<or> includes_str cs p)"

section \<open>Regular expressions anchored at the start of the string\<close>

text \<open>
  Every pattern of the source is anchored with \<open>^\<close>, has no flag, and is built from
  literal characters, \<open>\s+\<close>, \<open>\s*\<close>, \<open>\w+\<close>, optional groups and concatenation.
  \<open>rx_rest r s\<close> lists what can remain of \<open>s\<close> after a prefix matched by \<open>r\<close>;
  \<open>test\<close> succeeds when backtracking finds some match, that is when the list is not
  empty.
\<close>

datatype rx = Str jsstring | Ws1 | Ws0 | Wd1 | Opt rx | Seq rx rx

fun many :: "(cu \<Rightarrow> bool) \<Rightarrow> jsstring \<Rightarrow> jsstring list" where
  "many p [] = [[]]"
| "many p (c # cs) = (c # cs) # (if p c then many p cs else [])"

definition many1 :: "(cu \<Rightarrow> bool) \<Rightarrow> jsstring \<Rightarrow> jsstring list" where
  "many1 p s = (case s of [] \<Rightarrow> [] | c # cs \<Rightarrow> if p c then many p cs else [])"

fun rx_rest :: "rx \<Rightarrow> jsstring \<Rightarrow> jsstring list" where
  "rx_rest (Str l) s = (if take (length l) s = l then [drop (length l) s] else [])"
| "rx_rest Ws1 s = many1 isWhiteSpace s"
| "rx_rest Ws0 s = many isWhiteSpace s"
| "rx_rest Wd1 s = many1 isWordChar s"
| "rx_rest (Opt r) s = rx_rest r s @ [s]"
| "rx_rest (Seq a b) s = concat (map (rx_rest b) (rx_rest a s))"

definition rx_test :: "rx \<Rightarrow> jsstring \<Rightarrow> bool" where
  "rx_test r s \<longleftrightarrow> rx_rest r s \<noteq> []"

fun seqs :: "rx list \<Rightarrow> rx" where
  "seqs [] = Str []"
| "seqs [r] = r"
| "seqs (r # q # rs) = Seq r (seqs (q # rs))"

section \<open>lib/utils.ts\<close>

datatype chunk_type = T_code | T_markdown | T_config | T_text

definition getFileExtension :: "jsstring \<Rightarrow> jsstring" where
  "getFileExtension path =
     (let parts = js_split 46 path
      in if 1 < length parts then toLowerCase (last parts) else [])"

definition codeExtensions :: "jsstring list" where
  "codeExtensions = map js [''ts'', ''tsx'', ''js'', ''jsx'', ''py'', ''go'', ''rs'', ''java'',
     ''c'', ''cpp'', ''h'', ''hpp'', ''sql'', ''sh'', ''bash'']"

definition markdownExtensions :: "jsstring list" where
  "markdownExtensions = map js [''md'', ''mdx'']"

definition configExtensions :: "jsstring list" where
  "configExtensions = map js [''json'', ''yaml'', ''yml'', ''toml'', ''xml'', ''env'', ''ini'',
     ''cfg'']"

definition getFileType :: "jsstring \<Rightarrow> chunk_type" where
  "getFileType path =
     (let ext = getFileExtension path
      in if ext \<in> set codeExtensions then T_code
         else if ext \<in> set markdownExtensions then T_markdown
         else if ext \<in> set configExtensions then T_config
         else T_text)"

definition indexableExtensions :: "jsstring list" where
  "indexableExtensions = map js [''ts'', ''tsx'', ''js'', ''jsx'', ''py'', ''go'', ''rs'',
     ''java'', ''c'', ''cpp'', ''h'', ''hpp'', ''sql'', ''sh'', ''bash'', ''md'', ''mdx'',
     ''json'', ''yaml'', ''yml'', ''toml'', ''txt'']"

definition skipPatterns :: "jsstring list" where
  "skipPatterns = map js [''node_modules'', ''.git'', ''dist'', ''build'', ''.next'',
     ''__pycache__'', ''venv'', ''.venv'', ''target'', ''.idea'', ''.vscode'', ''coverage'',
     ''.wrangler'', ''.turbo'', ''.cache'']"

definition shouldIndexFile :: "jsstring \<Rightarrow> bool" where
  "shouldIndexFile path =
     (let ext = getFileExtension path
      in if list_ex (\<lambda>p. includes_str path p) skipPatterns then False
         else if includes_str path (js ''package-lock.json'') \<or>
                 includes_str path (js ''yarn.lock'') \<or>
                 includes_str path (js ''pnpm-lock.yaml'') then False
         else ext \<in> set indexableExtensions)"

text \<open>\<open>path.replace(/\/$/, '').split('/')\<close>, last part, or \<open>unknown\<close> when it is empty.\<close>

definition extractProjectName :: "jsstring \<Rightarrow> jsstring" where
  "extractProjectName path =
     (let stripped = (if path \<noteq> [] \<and> last path = 47 then butlast path else path);
          parts = js_split 47 stripped
      in if last parts \<noteq> [] then last parts else js ''unknown'')"

section \<open>lib/chunker.ts\<close>

type_synonym uuid = nat

definition MAX_CHUNK_TOKENS :: nat where
  "MAX_CHUNK_TOKENS = 512"

definition OVERLAP_LINES :: nat where
  "OVERLAP_LINES = 3"

definition APPROX_CHARS_PER_TOKEN :: nat where
  "APPROX_CHARS_PER_TOKEN = 4"

definition MAX_CHUNK_CHARS :: nat where
  "MAX_CHUNK_CHARS = MAX_CHUNK_TOKENS * APPROX_CHARS_PER_TOKEN"

record ChunkOptions =
  fileId :: uuid
  projectId :: uuid
  filePath :: jsstring

text \<open>A chunk without its id (\<open>Omit<Chunk, 'id'>\<close>); line numbers are JavaScript numbers.\<close>

record chunk =
  file_id :: uuid
  project_id :: uuid
  content :: jsstring
  start_line :: int
  end_line :: int
  chunk_type :: chunk_type

datatype error = TypeError | SyntaxError | DailyLimit | ServiceError | ConstraintError

definition mk_chunk :: "ChunkOptions \<Rightarrow> jsstring \<Rightarrow> int \<Rightarrow> int \<Rightarrow> chunk_type \<Rightarrow> chunk" where
  "mk_chunk opts c s e ty =
     \<lparr>file_id = fileId opts, project_id = projectId opts, content = c, start_line = s,
      end_line = e, chunk_type = ty\<rparr>"

subsection \<open>chunkByLines\<close>

text \<open>
  The state of the loop is \<open>(i, currentChunk, chunkStartLine, chunks)\<close>; one step is the
  body of the \<open>for\<close> loop at line \<open>l = lines[i]\<close>, followed by \<open>i++\<close>; \<open>n\<close> is
  \<open>lines.length\<close>.
\<close>

type_synonym window_state = "nat \<times> jsstring list \<times> int \<times> chunk list"

definition chunkByLines_step ::
  "ChunkOptions \<Rightarrow> chunk_type \<Rightarrow> nat \<Rightarrow> window_state \<Rightarrow> jsstring \<Rightarrow> window_state" where
  "chunkByLines_step opts ty n s l =
     (case s of (i, currentChunk, chunkStartLine, chunks) \<Rightarrow>
        let pushed = currentChunk @ [l]
        in if MAX_CHUNK_CHARS \<le> length (js_join NL pushed) \<or> int i = int n - 1 then
             let chunkContent = js_join NL pushed;
                 chunks' = (if 0 < length (trim chunkContent)
                            then chunks @ [mk_chunk opts chunkContent (chunkStartLine + 1)
                                             (int i + 1) ty]
                            else chunks);
                 overlapStart = max 0 (int (length pushed) - int OVERLAP_LINES);
                 kept = drop (nat overlapStart) pushed
             in (i + 1, kept, int i - int (length kept) + 1, chunks')
           else (i + 1, pushed, chunkStartLine, chunks))"

definition chunkByLines :: "jsstring list \<Rightarrow> ChunkOptions \<Rightarrow> chunk_type \<Rightarrow> chunk list" where
  "chunkByLines lines opts ty =
     (case foldl (chunkByLines_step opts ty (length lines)) (0, [], 0, []) lines of
        (i, currentChunk, chunkStartLine, chunks) \<Rightarrow> chunks)"

subsection \<open>splitLargeChunk\<close>

definition splitLargeChunk_step ::
  "ChunkOptions \<Rightarrow> nat \<Rightarrow> window_state \<Rightarrow> jsstring \<Rightarrow> window_state" where
  "splitLargeChunk_step opts startLine s l =
     (case s of (i, currentChunk, chunkStartLine, chunks) \<Rightarrow>
        let pushed = currentChunk @ [l]
        in if MAX_CHUNK_CHARS \<le> length (js_join NL pushed) then
             let chunks' = chunks @ [mk_chunk opts (js_join NL pushed) (chunkStartLine + 1)
                                       (int startLine + int i + 1) T_code];
                 overlapStart = max 0 (int (length pushed) - int OVERLAP_LINES);
                 kept = drop (nat overlapStart) pushed
             in (i + 1, kept, int startLine + int i - int (length kept) + 1, chunks')
           else (i + 1, pushed, chunkStartLine, chunks))"

definition splitLargeChunk :: "jsstring list \<Rightarrow> nat \<Rightarrow> ChunkOptions \<Rightarrow> chunk list" where
  "splitLargeChunk lines startLine opts =
     (case foldl (splitLargeChunk_step opts startLine) (0, [], int startLine, []) lines of
        (i, currentChunk, chunkStartLine, chunks) \<Rightarrow>
          if 0 < length currentChunk \<and> 0 < length (trim (js_join NL currentChunk))
          then chunks @ [mk_chunk opts (js_join NL currentChunk) (chunkStartLine + 1)
                           (int startLine + int (length lines)) T_code]
          else chunks)"

subsection \<open>detectCodeBoundaries\<close>

definition fnPattern :: rx where
  "fnPattern = seqs [Opt (Seq (Str (js ''export'')) Ws1), Opt (Seq (Str (js ''async'')) Ws1),
     Str (js ''function''), Ws1, Wd1]"

definition classPattern :: rx where
  "classPattern = seqs [Opt (Seq (Str (js ''export'')) Ws1), Str (js ''class''), Ws1, Wd1]"

definition constPattern :: rx where
  "constPattern = seqs [Opt (Seq (Str (js ''export'')) Ws1), Str (js ''const''), Ws1, Wd1, Ws0,
     Str (js ''=''), Ws0, Opt (Seq (Str (js ''async'')) Ws1), Str (js ''('')]"

definition pyPatterns :: "rx list" where
  "pyPatterns =
     [seqs [Opt (Seq (Str (js ''async'')) Ws1), Str (js ''def''), Ws1, Wd1],
      seqs [Str (js ''class''), Ws1, Wd1]]"

definition goPatterns :: "rx list" where
  "goPatterns =
     [seqs [Str (js ''func''), Ws1,
            Opt (seqs [Str (js ''(''), Wd1, Ws1, Opt (Str (js ''*'')), Wd1, Str (js '')''), Ws1]),
            Wd1],
      seqs [Str (js ''type''), Ws1, Wd1, Ws1, Str (js ''struct'')]]"

definition rsPatterns :: "rx list" where
  "rsPatterns =
     [seqs [Opt (Seq (Str (js ''pub'')) Ws1), Opt (Seq (Str (js ''async'')) Ws1),
            Str (js ''fn''), Ws1, Wd1],
      seqs [Opt (Seq (Str (js ''pub'')) Ws1), Str (js ''struct''), Ws1, Wd1],
      seqs [Str (js ''impl''), Ws1]]"

text \<open>
  \<open>patterns[ext || ''] || []\<close>. The table is an object literal, so a key it does not
  hold is still found when \<open>Object.prototype\<close> has it; of those names only
  \<open>constructor\<close> and \<open>__proto__\<close> are in lower case. Their values are truthy and not
  iterable: \<open>None\<close>, on which the \<open>for ... of\<close> over the patterns throws a TypeError.
\<close>

definition patterns :: "jsstring \<Rightarrow> rx list option" where
  "patterns ext =
     (if ext = js ''ts'' \<or> ext = js ''tsx'' \<or> ext = js ''js''
        then Some [fnPattern, classPattern, constPattern]
      else if ext = js ''jsx'' then Some [fnPattern, classPattern]
      else if ext = js ''py'' then Some pyPatterns
      else if ext = js ''go'' then Some goPatterns
      else if ext = js ''rs'' then Some rsPatterns
      else if ext = js ''constructor'' \<or> ext = js ''__proto__'' then None
      else Some [])"

text \<open>The local \<open>langPatterns\<close> of \<open>detectCodeBoundaries\<close>, from the file path.\<close>

definition langPatterns :: "jsstring \<Rightarrow> rx list option" where
  "langPatterns path = patterns (toLowerCase (last (js_split 46 path)))"

text \<open>
  One step of the loop over the lines: the state is \<open>(i, boundaries)\<close>, or the error
  thrown. The first pattern that matches the trimmed line decides (\<open>break\<close>).
\<close>

definition detectCodeBoundaries_step ::
  "rx list option \<Rightarrow> error + nat \<times> nat list \<Rightarrow> jsstring \<Rightarrow> error + nat \<times> nat list" where
  "detectCodeBoundaries_step lp s l =
     (case s of
        Inl e \<Rightarrow> Inl e
      | Inr (i, boundaries) \<Rightarrow>
          (case lp of
             None \<Rightarrow> Inl TypeError
           | Some ps \<Rightarrow>
               let line = trim l
               in (case find (\<lambda>pattern. rx_test pattern line) ps of
                     None \<Rightarrow> Inr (i + 1, boundaries)
                   | Some pattern \<Rightarrow>
                       let lastBoundary = last boundaries
                       in if 5 < int i - int lastBoundary
                          then Inr (i + 1, boundaries @ [i])
                          else Inr (i + 1, boundaries))))"

definition detectCodeBoundaries :: "jsstring list \<Rightarrow> jsstring \<Rightarrow> error + nat list" where
  "detectCodeBoundaries lines path =
     (case foldl (detectCodeBoundaries_step (langPatterns path)) (Inr (0, [0])) lines of
        Inl e \<Rightarrow> Inl e
      | Inr (i, boundaries) \<Rightarrow> Inr boundaries)"

subsection \<open>chunkCode\<close>

text \<open>
  One step of the loop over the boundaries: \<open>start = boundaries[i]\<close>, and \<open>next\<close> is
  \<open>boundaries[i + 1]\<close> when there is one (\<open>end = boundaries[i + 1] ?? lines.length\<close>).
\<close>

definition chunkCode_step ::
  "ChunkOptions \<Rightarrow> jsstring list \<Rightarrow> nat \<Rightarrow> nat option \<Rightarrow> chunk list \<Rightarrow> chunk list" where
  "chunkCode_step opts lines start next chunks =
     (let endIdx = (case next of None \<Rightarrow> length lines | Some b \<Rightarrow> b);
          chunkLines = slice lines start endIdx;
          chunkContent = js_join NL chunkLines
      in if MAX_CHUNK_CHARS < length chunkContent
         then chunks @ splitLargeChunk chunkLines start opts
         else if 0 < length (trim chunkContent)
         then chunks @ [mk_chunk opts chunkContent (int start + 1) (int endIdx) T_code]
         else chunks)"

fun chunkCode_loop :: "ChunkOptions \<Rightarrow> jsstring list \<Rightarrow> nat list \<Rightarrow> chunk list \<Rightarrow> chunk list" where
  "chunkCode_loop opts lines [] chunks = chunks"
| "chunkCode_loop opts lines [start] chunks = chunkCode_step opts lines start None chunks"
| "chunkCode_loop opts lines (start # b # bs) chunks =
     chunkCode_loop opts lines (b # bs) (chunkCode_step opts lines start (Some b) chunks)"

definition chunkCode :: "jsstring \<Rightarrow> ChunkOptions \<Rightarrow> error + chunk list" where
  "chunkCode contents opts =
     (let lines = js_split NL contents
      in case detectCodeBoundaries lines (filePath opts) of
           Inl e \<Rightarrow> Inl e
         | Inr boundaries \<Rightarrow>
             if 0 < length boundaries
             then Inr (chunkCode_loop opts lines boundaries [])
             else Inr (chunkByLines lines opts T_code))"

subsection \<open>chunkMarkdown\<close>

definition headerPattern :: rx where
  "headerPattern = seqs [Str (js ''#''), Opt (Str (js ''#'')), Opt (Str (js ''#'')), Ws1]"

text \<open>
  The state of the loop is \<open>(i, currentChunkStart, currentChunkLines, chunks)\<close>.
\<close>

type_synonym markdown_state = "nat \<times> int \<times> jsstring list \<times> chunk list"

definition chunkMarkdown_step :: "ChunkOptions \<Rightarrow> markdown_state \<Rightarrow> jsstring \<Rightarrow> markdown_state" where
  "chunkMarkdown_step opts s line =
     (case s of (i, currentChunkStart, currentChunkLines, chunks) \<Rightarrow>
        if rx_test headerPattern line \<and> 0 < length currentChunkLines then
          let chunkContent = js_join NL currentChunkLines;
              chunks' = (if 0 < length (trim chunkContent)
                         then chunks @ [mk_chunk opts chunkContent (currentChunkStart + 1)
                                          (int i) T_markdown]
                         else chunks)
          in (i + 1, int i, [line], chunks')
        else
          let pushed = currentChunkLines @ [line]
          in if MAX_CHUNK_CHARS < length (js_join NL pushed) then
               let splitPoint = length pushed div 2;
                   firstHalf = slice pushed 0 splitPoint;
                   secondHalf = drop splitPoint pushed;
                   chunks' = chunks @ [mk_chunk opts (js_join NL firstHalf)
                                         (currentChunkStart + 1)
                                         (currentChunkStart + int splitPoint) T_markdown]
               in (i + 1, currentChunkStart + int splitPoint, secondHalf, chunks')
             else (i + 1, currentChunkStart, pushed, chunks))"

definition chunkMarkdown :: "jsstring \<Rightarrow> ChunkOptions \<Rightarrow> chunk list" where
  "chunkMarkdown contents opts =
     (let lines = js_split NL contents
      in case foldl (chunkMarkdown_step opts) (0, 0, [], []) lines of
           (i, currentChunkStart, currentChunkLines, chunks) \<Rightarrow>
             if 0 < length currentChunkLines then
               let chunkContent = js_join NL currentChunkLines
               in if 0 < length (trim chunkContent)
                  then chunks @ [mk_chunk opts chunkContent (currentChunkStart + 1)
                                   (int (length lines)) T_markdown]
                  else chunks
             else chunks)"

subsection \<open>chunkConfig, chunkText, chunkFile\<close>

definition chunkConfig :: "jsstring \<Rightarrow> ChunkOptions \<Rightarrow> chunk list" where
  "chunkConfig contents opts =
     (if length contents \<le> MAX_CHUNK_CHARS
      then [mk_chunk opts contents 1 (int (length (js_split NL contents))) T_config]
      else chunkByLines (js_split NL contents) opts T_config)"

definition chunkText :: "jsstring \<Rightarrow> ChunkOptions \<Rightarrow> chunk list" where
  "chunkText contents opts = chunkByLines (js_split NL contents) opts T_text"

definition chunkFile :: "jsstring \<Rightarrow> ChunkOptions \<Rightarrow> error + chunk list" where
  "chunkFile contents opts =
     (case getFileType (filePath opts) of
        T_markdown \<Rightarrow> Inr (chunkMarkdown contents opts)
      | T_code \<Rightarrow> chunkCode contents opts
      | T_config \<Rightarrow> Inr (chunkConfig contents opts)
      | T_text \<Rightarrow> Inr (chunkText contents opts))"

section \<open>Storage and external services\<close>

text \<open>
  The relational store holds the rows of \<open>schema.sql\<close>; the vector index, the key-value
  cache and the embedding service are external. Their state is part of \<open>env\<close>; what
  they answer is fixed by a \<open>world\<close>: whether the k-th call to the vector index
  succeeds, what the k-th call to the embedding model returns (\<open>None\<close>: it throws), the
  clock \<open>Date.now()\<close> in milliseconds, the date of the day, and SHA-256. Component values
  of embeddings are never inspected, so their type \<open>'e\<close> is left open. Identifiers
  (\<open>crypto.randomUUID()\<close>) are drawn from a counter, so each is fresh. Statements on
  the relational store and the cache succeed unless a constraint of the schema fails.
\<close>

datatype project_status = S_pending | S_indexing | S_ready | S_error

record project =
  p_id :: uuid
  p_name :: jsstring
  p_path :: jsstring
  p_status :: project_status
  file_count :: int
  last_indexed_at :: "int option"

record file_row =
  f_id :: uuid
  f_project_id :: uuid
  relative_path :: jsstring
  content_hash :: jsstring
  chunk_count :: int
  indexed_at :: "int option"

record Chunk = chunk +
  c_id :: uuid

record message =
  m_id :: uuid
  m_conversation_id :: uuid
  role :: jsstring
  m_content :: jsstring
  m_sources :: "jsstring option"
  created_at :: int

record VectorMetadata =
  md_chunk_id :: uuid
  md_project_id :: uuid
  md_file_path :: jsstring
  md_file_type :: chunk_type
  md_start_line :: int
  md_end_line :: int

record 'e EmbeddingResult =
  v_id :: uuid
  v_values :: "'e option"
  v_metadata :: VectorMetadata

datatype 'e vz_call = Upsert "'e EmbeddingResult list" bool | DeleteByIds "uuid list" bool

record 'e env =
  t_projects :: "project list"
  t_files :: "file_row list"
  t_chunks :: "Chunk list"
  t_messages :: "message list"
  KV :: "jsstring \<rightharpoonup> jsstring"
  VECTORIZE :: "'e EmbeddingResult list"
  vz_log :: "'e vz_call list"
  ai_log :: "jsstring list list"
  uuids :: nat

record 'e world =
  ai_run :: "nat \<Rightarrow> jsstring list \<Rightarrow> 'e list option"
  vz_ok :: "nat \<Rightarrow> bool"
  now :: int
  today :: jsstring
  sha256 :: "jsstring \<Rightarrow> jsstring"

definition generateId :: "nat \<Rightarrow> uuid \<times> nat" where
  "generateId n = (n, n + 1)"

text \<open>
  \<open>for (let i = 0; i < xs.length; i += size) { const batch = xs.slice(i, i + size); ... }\<close>
  visits these batches, in this order. Every \<open>size\<close> of the source is a positive constant.
\<close>

function batches_from :: "nat \<Rightarrow> nat \<Rightarrow> 'a list \<Rightarrow> 'a list list" where
  "batches_from sz i xs =
     (if 0 < sz \<and> i < length xs then slice xs i (i + sz) # batches_from sz (i + sz) xs
      else [])"
  by pat_completeness auto
termination
  by (relation "measure (\<lambda>(sz, i, xs). length xs - i)") auto

declare batches_from.simps [simp del]

section \<open>Numbers of the quota counter\<close>

text \<open>
  \<open>parseInt\<close> without a radix: leading white space, a sign, a \<open>0x\<close> prefix for radix 16,
  then the digits; \<open>None\<close> is NaN. Numbers are mathematical integers, as JavaScript
  numbers are below \<open>2^53\<close>.
\<close>

definition digitVal :: "cu \<Rightarrow> nat option" where
  "digitVal c =
     (if 48 \<le> c \<and> c \<le> 57 then Some (unat c - 48)
      else if 97 \<le> c \<and> c \<le> 122 then Some (unat c - 87)
      else if 65 \<le> c \<and> c \<le> 90 then Some (unat c - 55)
      else None)"

definition isDigitOf :: "nat \<Rightarrow> cu \<Rightarrow> bool" where
  "isDigitOf R c = (case digitVal c of None \<Rightarrow> False | Some d \<Rightarrow> d < R)"

definition digitsValue :: "nat \<Rightarrow> jsstring \<Rightarrow> int option" where
  "digitsValue R s =
     (let z = takeWhile (isDigitOf R) s
      in if z = [] then None
         else Some (int (foldl (\<lambda>acc c. acc * R + the (digitVal c)) 0 z)))"

definition parseInt :: "jsstring \<Rightarrow> int option" where
  "parseInt str =
     (let s = dropWhile isWhiteSpace str;
          sign = (if take 1 s = js ''-'' then - 1 else 1);
          s1 = (if take 1 s = js ''-'' \<or> take 1 s = js ''+'' then drop 1 s else s);
          v = (if take 2 s1 = js ''0x'' \<or> take 2 s1 = js ''0X''
               then digitsValue 16 (drop 2 s1) else digitsValue 10 s1)
      in map_option (\<lambda>m. sign * m) v)"

fun digits :: "nat \<Rightarrow> jsstring" where
  "digits n = (if n < 10 then [48 + of_nat n] else digits (n div 10) @ [48 + of_nat (n mod 10)])"

declare digits.simps [simp del]

text \<open>\<open>String(x)\<close> for an integer or NaN.\<close>

definition js_String :: "int option \<Rightarrow> jsstring" where
  "js_String x =
     (case x of
        None \<Rightarrow> js ''NaN''
      | Some m \<Rightarrow> if m < 0 then js ''-'' @ digits (nat (- m)) else digits (nat m))"

section \<open>lib/embeddings.ts\<close>

definition DAILY_EMBEDDING_LIMIT :: int where
  "DAILY_EMBEDDING_LIMIT = 7000"

definition BATCH_SIZE :: nat where
  "BATCH_SIZE = 100"

definition getRateLimitKey :: "jsstring \<Rightarrow> jsstring \<Rightarrow> jsstring" where
  "getRateLimitKey day type = js ''rate:'' @ type @ js '':'' @ day"

text \<open>
  \<open>await env.KV.get(key) || '0'\<close>: the stored string, or \<open>0\<close> when the key is absent or
  holds the empty string.
\<close>

definition kv_get_or_zero :: "'e env \<Rightarrow> jsstring \<Rightarrow> jsstring" where
  "kv_get_or_zero env key =
     (case KV env key of None \<Rightarrow> js ''0'' | Some v \<Rightarrow> if v = [] then js ''0'' else v)"

text \<open>
  A comparison with NaN is false, a sum with NaN is NaN. The embedding call is logged in
  \<open>ai_log\<close> whether or not it throws; the counter is written only after it returned.
\<close>

definition generateEmbeddings ::
  "'e world \<Rightarrow> 'e env \<Rightarrow> jsstring list \<Rightarrow> (error + 'e list) \<times> 'e env" where
  "generateEmbeddings w env texts =
     (if length texts = 0 then (Inr [], env)
      else
        let rateLimitKey = getRateLimitKey (today w) (js ''embedding'');
            currentCount = parseInt (kv_get_or_zero env rateLimitKey);
            total = map_option (\<lambda>c. c + int (length texts)) currentCount
        in if (case total of None \<Rightarrow> False | Some t \<Rightarrow> DAILY_EMBEDDING_LIMIT < t)
           then (Inl DailyLimit, env)
           else
             (case ai_run w (length (ai_log env)) texts of
                None \<Rightarrow> (Inl ServiceError, env\<lparr>ai_log := ai_log env @ [texts]\<rparr>)
              | Some data \<Rightarrow>
                  (Inr data,
                   env\<lparr>ai_log := ai_log env @ [texts],
                       KV := (KV env)(rateLimitKey \<mapsto> js_String total)\<rparr>)))"

text \<open>
  \<open>env.VECTORIZE.upsert(batch)\<close>: the call is logged with its outcome; when it succeeds
  the records replace those of the same id.
\<close>

definition VECTORIZE_upsert ::
  "'e world \<Rightarrow> 'e env \<Rightarrow> 'e EmbeddingResult list \<Rightarrow> bool \<times> 'e env" where
  "VECTORIZE_upsert w env batch =
     (if vz_ok w (length (vz_log env))
      then (True,
            env\<lparr>VECTORIZE := filter (\<lambda>v. v_id v \<notin> set (map v_id batch)) (VECTORIZE env) @ batch,
                vz_log := vz_log env @ [Upsert batch True]\<rparr>)
      else (False, env\<lparr>vz_log := vz_log env @ [Upsert batch False]\<rparr>))"

definition VECTORIZE_deleteByIds :: "'e world \<Rightarrow> 'e env \<Rightarrow> uuid list \<Rightarrow> bool \<times> 'e env" where
  "VECTORIZE_deleteByIds w env ids =
     (if vz_ok w (length (vz_log env))
      then (True,
            env\<lparr>VECTORIZE := filter (\<lambda>v. v_id v \<notin> set ids) (VECTORIZE env),
                vz_log := vz_log env @ [DeleteByIds ids True]\<rparr>)
      else (False, env\<lparr>vz_log := vz_log env @ [DeleteByIds ids False]\<rparr>))"

text \<open>The state of the loop of \<open>upsertVectors\<close> is \<open>(env, inserted, errors)\<close>.\<close>

definition upsertVectors_step ::
  "'e world \<Rightarrow> 'e env \<times> nat \<times> nat \<Rightarrow> 'e EmbeddingResult list \<Rightarrow> 'e env \<times> nat \<times> nat" where
  "upsertVectors_step w s batch =
     (case s of (env, inserted, errors) \<Rightarrow>
        (case VECTORIZE_upsert w env batch of
           (True, env') \<Rightarrow> (env', inserted + length batch, errors)
         | (False, env') \<Rightarrow> (env', inserted, errors + length batch)))"

definition upsertVectors ::
  "'e world \<Rightarrow> 'e env \<Rightarrow> 'e EmbeddingResult list \<Rightarrow> 'e env \<times> nat \<times> nat" where
  "upsertVectors w env vectors =
     foldl (upsertVectors_step w) (env, 0, 0) (batches_from BATCH_SIZE 0 vectors)"

definition deleteProjectVectors :: "'e world \<Rightarrow> 'e env \<Rightarrow> uuid \<Rightarrow> 'e env" where
  "deleteProjectVectors w env pid =
     (let chunkIds = map c_id (filter (\<lambda>c. project_id c = pid) (t_chunks env))
      in if length chunkIds = 0 then env
         else foldl (\<lambda>e batch. snd (VECTORIZE_deleteByIds w e batch)) env
                (batches_from 100 0 chunkIds))"

section \<open>Reading a file back (readFileTool)\<close>

record file_read =
  rf_content :: jsstring
  lineCount :: int

text \<open>
  The join of \<open>chunks\<close> with \<open>files\<close>, ordered by \<open>start_line\<close>; rows of equal
  \<open>start_line\<close> keep the order of the table.
\<close>

definition readFileTool :: "'e env \<Rightarrow> uuid \<Rightarrow> jsstring \<Rightarrow> file_read option" where
  "readFileTool env pid path =
     (let results = sort_key start_line
            [c. c \<leftarrow> t_chunks env, f \<leftarrow> t_files env,
                file_id c = f_id f \<and> f_project_id f = pid \<and> relative_path f = path]
      in if length results = 0 then None
         else Some \<lparr>rf_content = js_join NL (map content results),
                    lineCount = end_line (last results)\<rparr>)"

section \<open>handlers/index.ts\<close>

definition EMBEDDING_BATCH_SIZE :: nat where
  "EMBEDDING_BATCH_SIZE = 50"

record input_file =
  in_path :: jsstring
  in_content :: jsstring

text \<open>
  The parsed body of the request: \<open>rq_force\<close> is the truthiness of \<open>body.force\<close>,
  \<open>rq_append\<close> is \<open>body.append === true\<close>.
\<close>

record IndexRequest =
  rq_project_path :: "jsstring option"
  rq_project_name :: "jsstring option"
  rq_force :: bool
  rq_append :: bool
  rq_files :: "input_file list option"

datatype progress_status = P_chunking | P_embedding | P_complete | P_error

text \<open>\<open>pr_error = Some n\<close> stands for the text \<open>n vectors failed to upsert\<close>.\<close>

record IndexProgress =
  pr_project_id :: uuid
  pr_status :: progress_status
  total_files :: nat
  processed_files :: nat
  total_chunks :: nat
  pr_error :: "nat option"

text \<open>
  The responses of \<open>handleIndex\<close>: \<open>errorResponse\<close> with status 400 and its message,
  \<open>errorResponse\<close> with status 500 from the outer \<open>catch\<close>, the answer for a project
  indexed within the hour (project id and \<open>last_indexed_at\<close>), the answer when no file is
  left to index, and the final answer with \<open>vectors_inserted\<close> and \<open>vectors_errors\<close>.
\<close>

datatype response =
    BadRequest jsstring
  | ServerError error
  | RecentlyIndexed uuid int
  | NoNewFiles IndexProgress
  | IndexResult IndexProgress nat nat

definition set_status :: "'e env \<Rightarrow> uuid \<Rightarrow> project_status \<Rightarrow> 'e env" where
  "set_status env pid st =
     env\<lparr>t_projects := map (\<lambda>p. if p_id p = pid then p\<lparr>p_status := st\<rparr> else p) (t_projects env)\<rparr>"

text \<open>
  \<open>deleteProjectVectors\<close>, then the batch of the two \<open>DELETE\<close>s and the \<open>UPDATE\<close> to
  \<open>indexing\<close> with \<open>file_count = 0\<close>.
\<close>

definition clearProject :: "'e world \<Rightarrow> 'e env \<Rightarrow> uuid \<Rightarrow> 'e env" where
  "clearProject w env pid =
     (let env1 = deleteProjectVectors w env pid
      in env1\<lparr>t_chunks := filter (\<lambda>c. project_id c \<noteq> pid) (t_chunks env1),
              t_files := filter (\<lambda>f. f_project_id f \<noteq> pid) (t_files env1),
              t_projects := map (\<lambda>p. if p_id p = pid
                                     then p\<lparr>p_status := S_indexing, file_count := 0\<rparr> else p)
                            (t_projects env1)\<rparr>)"

text \<open>
  Lines 42 to 100: the project row is looked up by path. The result is the early
  response, or the project id with the paths already stored (\<open>existingFilePaths\<close>, read
  in append mode only). \<open>Date.now() / 1000 - lastIndexed < 3600\<close> is compared in
  milliseconds.
\<close>

definition prepareProject ::
  "'e world \<Rightarrow> 'e env \<Rightarrow> IndexRequest \<Rightarrow> jsstring \<Rightarrow> jsstring \<Rightarrow>
   (response + uuid \<times> jsstring list) \<times> 'e env" where
  "prepareProject w env body projectPath projectName =
     (case find (\<lambda>p. p_path p = projectPath) (t_projects env) of
        Some project \<Rightarrow>
          let pid = p_id project
          in if rq_append body then
               (Inr (pid, map relative_path (filter (\<lambda>f. f_project_id f = pid) (t_files env))),
                set_status env pid S_indexing)
             else if \<not> rq_force body then
               (case last_indexed_at project of
                  None \<Rightarrow> (Inr (pid, []), clearProject w env pid)
                | Some lastIndexed \<Rightarrow>
                    if lastIndexed \<noteq> 0 \<and> now w - 1000 * lastIndexed < 3600000
                    then (Inl (RecentlyIndexed pid lastIndexed), env)
                    else (Inr (pid, []), clearProject w env pid))
             else (Inr (pid, []), clearProject w env pid)
      | None \<Rightarrow>
          (case generateId (uuids env) of
             (pid, n) \<Rightarrow>
               (Inr (pid, []),
                env\<lparr>uuids := n,
                    t_projects := t_projects env @
                      [\<lparr>p_id = pid, p_name = projectName, p_path = projectPath,
                        p_status = S_indexing, file_count = 0, last_indexed_at = None\<rparr>]\<rparr>)))"

text \<open>Lines 102 to 108: the eligible files, minus the paths already stored in append mode.\<close>

definition filesToProcess_of :: "input_file list \<Rightarrow> bool \<Rightarrow> jsstring list \<Rightarrow> input_file list" where
  "filesToProcess_of fs appendMode existingFilePaths =
     (let filesToProcess = filter (\<lambda>f. shouldIndexFile (in_path f)) fs
      in if appendMode \<and> 0 < length existingFilePaths
         then filter (\<lambda>f. in_path f \<notin> set existingFilePaths) filesToProcess
         else filesToProcess)"

fun assignChunkIds :: "chunk list \<Rightarrow> nat \<Rightarrow> Chunk list \<times> nat" where
  "assignChunkIds [] n = ([], n)"
| "assignChunkIds (c # cs) n =
     (case generateId n of
        (i, n1) \<Rightarrow>
          (case assignChunkIds cs n1 of
             (rest, n2) \<Rightarrow> (chunk.extend c (Chunk.fields i) # rest, n2)))"

text \<open>
  One file of the loop at lines 144 to 166; the state is the id counter, \<open>allChunks\<close> and
  \<open>fileRecords\<close>, or the error thrown.
\<close>

definition processFile_step ::
  "'e world \<Rightarrow> uuid \<Rightarrow> error + nat \<times> Chunk list \<times> file_row list \<Rightarrow> input_file \<Rightarrow>
   error + nat \<times> Chunk list \<times> file_row list" where
  "processFile_step w pid s file =
     (case s of
        Inl e \<Rightarrow> Inl e
      | Inr (n, allChunks, fileRecords) \<Rightarrow>
          (case generateId n of
             (fid, n1) \<Rightarrow>
               let contentHash = sha256 w (in_content file)
               in (case chunkFile (in_content file)
                          \<lparr>fileId = fid, projectId = pid, filePath = in_path file\<rparr> of
                     Inl e \<Rightarrow> Inl e
                   | Inr cs \<Rightarrow>
                       (case assignChunkIds cs n1 of
                          (newChunks, n2) \<Rightarrow>
                            Inr (n2, allChunks @ newChunks,
                                 fileRecords @
                                   [\<lparr>f_id = fid, f_project_id = pid, relative_path = in_path file,
                                     content_hash = contentHash,
                                     chunk_count = int (length newChunks),
                                     indexed_at = None\<rparr>])))))"

text \<open>
  A batch of \<open>INSERT INTO files\<close> is one transaction: it fails as a whole when a row
  repeats a \<open>(project_id, relative_path)\<close> of the table or of the batch.
\<close>

definition file_key :: "file_row \<Rightarrow> uuid \<times> jsstring" where
  "file_key f = (f_project_id f, relative_path f)"

definition files_conflict :: "file_row list \<Rightarrow> file_row list \<Rightarrow> bool" where
  "files_conflict stored batch \<longleftrightarrow>
     \<not> distinct (map file_key batch) \<or>
     list_ex (\<lambda>f. file_key f \<in> set (map file_key stored)) batch"

definition insertFiles_step ::
  "int \<Rightarrow> error option \<times> 'e env \<Rightarrow> file_row list \<Rightarrow> error option \<times> 'e env" where
  "insertFiles_step ts s batch =
     (case s of
        (Some e, env) \<Rightarrow> (Some e, env)
      | (None, env) \<Rightarrow>
          if files_conflict (t_files env) batch then (Some ConstraintError, env)
          else (None, env\<lparr>t_files := t_files env @ map (\<lambda>f. f\<lparr>indexed_at := Some ts\<rparr>) batch\<rparr>))"

definition insertChunks_step :: "'e env \<Rightarrow> Chunk list \<Rightarrow> 'e env" where
  "insertChunks_step env batch = env\<lparr>t_chunks := t_chunks env @ batch\<rparr>"

definition vectorOf :: "uuid \<Rightarrow> file_row list \<Rightarrow> 'e list \<Rightarrow> nat \<Rightarrow> Chunk \<Rightarrow> 'e EmbeddingResult" where
  "vectorOf pid fileRecords embeddings j c =
     (let fileRecord = find (\<lambda>f. f_id f = file_id c) fileRecords;
          file_path = (case fileRecord of None \<Rightarrow> [] | Some f \<Rightarrow> relative_path f)
      in \<lparr>v_id = c_id c,
          v_values = (if j < length embeddings then Some (embeddings ! j) else None),
          v_metadata = \<lparr>md_chunk_id = c_id c, md_project_id = pid, md_file_path = file_path,
                        md_file_type = getFileType file_path, md_start_line = start_line c,
                        md_end_line = end_line c\<rparr>\<rparr>)"

text \<open>
  One batch of the loop at lines 205 to 233; the state is \<open>(env, vectorResults)\<close>. A batch
  whose embedding throws is logged by the source and adds nothing.
\<close>

definition embed_step ::
  "'e world \<Rightarrow> uuid \<Rightarrow> file_row list \<Rightarrow> 'e env \<times> 'e EmbeddingResult list \<Rightarrow> Chunk list \<Rightarrow>
   'e env \<times> 'e EmbeddingResult list" where
  "embed_step w pid fileRecords s batch =
     (case s of (env, vectorResults) \<Rightarrow>
        (case generateEmbeddings w env (map content batch) of
           (Inr embeddings, env') \<Rightarrow>
             (env', vectorResults @
                map (\<lambda>(j, c). vectorOf pid fileRecords embeddings j c) (enumerate 0 batch))
         | (Inl e, env') \<Rightarrow> (env', vectorResults)))"

definition updateProject ::
  "'e env \<Rightarrow> uuid \<Rightarrow> bool \<Rightarrow> project_status \<Rightarrow> int \<Rightarrow> int \<Rightarrow> 'e env" where
  "updateProject env pid appendMode st n ts =
     env\<lparr>t_projects :=
           map (\<lambda>p. if p_id p = pid
                    then p\<lparr>p_status := st,
                           file_count := (if appendMode then file_count p + n else n),
                           last_indexed_at := Some ts\<rparr>
                    else p) (t_projects env)\<rparr>"

text \<open>
  Lines 198 to 274, once the file and chunk rows are stored: the embedding loop, the
  upsert, the update of the project row and the response. \<open>nfiles\<close> is
  \<open>filesToProcess.length\<close>.
\<close>

definition embedFiles ::
  "'e world \<Rightarrow> 'e env \<Rightarrow> uuid \<Rightarrow> bool \<Rightarrow> file_row list \<Rightarrow> Chunk list \<Rightarrow> nat \<Rightarrow> response \<times> 'e env" where
  "embedFiles w env pid appendMode fileRecords allChunks nfiles =
     (case foldl (embed_step w pid fileRecords) (env, [])
             (batches_from EMBEDDING_BATCH_SIZE 0 allChunks) of
        (env4, vectorResults) \<Rightarrow>
          (case upsertVectors w env4 vectorResults of
             (env5, inserted, errors) \<Rightarrow>
               (IndexResult
                  \<lparr>pr_project_id = pid,
                   pr_status = (if errors = 0 then P_complete else P_error),
                   total_files = nfiles,
                   processed_files = nfiles,
                   total_chunks = length allChunks,
                   pr_error = (if 0 < errors then Some errors else None)\<rparr>
                  inserted errors,
                updateProject env5 pid appendMode
                  (if errors = 0 then S_ready else S_error)
                  (int (length fileRecords)) (now w div 1000))))"

text \<open>Lines 102 to 196, then \<open>embedFiles\<close>.\<close>

definition indexFiles ::
  "'e world \<Rightarrow> 'e env \<Rightarrow> input_file list \<Rightarrow> bool \<Rightarrow> uuid \<Rightarrow> jsstring list \<Rightarrow> response \<times> 'e env" where
  "indexFiles w env fs appendMode pid existingFilePaths =
     (let filesToProcess = filesToProcess_of fs appendMode existingFilePaths
      in if length filesToProcess = 0 then
           (NoNewFiles \<lparr>pr_project_id = pid, pr_status = P_complete, total_files = 0,
                        processed_files = 0, total_chunks = 0, pr_error = None\<rparr>,
            set_status env pid S_ready)
         else
           (case foldl (processFile_step w pid) (Inr (uuids env, [], [])) filesToProcess of
              Inl e \<Rightarrow> (ServerError e, env)
            | Inr (n, allChunks, fileRecords) \<Rightarrow>
                (case foldl (insertFiles_step (now w div 1000)) (None, env\<lparr>uuids := n\<rparr>)
                        (batches_from 100 0 fileRecords) of
                   (Some e, env2) \<Rightarrow> (ServerError e, env2)
                 | (None, env2) \<Rightarrow>
                     embedFiles w (foldl insertChunks_step env2 (batches_from 100 0 allChunks))
                       pid appendMode fileRecords allChunks (length filesToProcess))))"

text \<open>
  \<open>handleIndex\<close>; \<open>None\<close> is a request whose body is not JSON (\<open>request.json()\<close> throws).
\<close>

definition handleIndex :: "'e world \<Rightarrow> 'e env \<Rightarrow> IndexRequest option \<Rightarrow> response \<times> 'e env" where
  "handleIndex w env request =
     (case request of
        None \<Rightarrow> (ServerError SyntaxError, env)
      | Some body \<Rightarrow>
          (case rq_project_path body of
             None \<Rightarrow> (BadRequest (js ''project_path is required''), env)
           | Some projectPath \<Rightarrow>
               if projectPath = [] then (BadRequest (js ''project_path is required''), env)
               else
                 (case rq_files body of
                    None \<Rightarrow>
                      (BadRequest
                         (js ''files array is required with path and content for each file''),
                       env)
                  | Some fs \<Rightarrow>
                      if length fs = 0 then
                        (BadRequest
                           (js ''files array is required with path and content for each file''),
                         env)
                      else
                        let projectName =
                              (case rq_project_name body of
                                 None \<Rightarrow> extractProjectName projectPath
                               | Some nm \<Rightarrow> if nm = [] then extractProjectName projectPath else nm)
                        in (case prepareProject w env body projectPath projectName of
                              (Inl resp, env1) \<Rightarrow> (resp, env1)
                            | (Inr (pid, existingFilePaths), env1) \<Rightarrow>
                                indexFiles w env1 fs (rq_append body) pid existingFilePaths))))"

section \<open>handlers/query.ts and lib/llm.ts: the conversation history\<close>

text \<open>
  The \<open>SELECT role, content FROM messages WHERE conversation_id = ? ORDER BY created_at
  ASC LIMIT 10\<close> of \<open>handleQuery\<close>; rows of equal \<open>created_at\<close> keep the order of the
  table.
\<close>

definition conversationHistory :: "'e env \<Rightarrow> uuid \<Rightarrow> (jsstring \<times> jsstring) list" where
  "conversationHistory env conversation_id =
     map (\<lambda>m. (role m, m_content m))
       (take 10 (sort_key created_at
          (filter (\<lambda>m. m_conversation_id m = conversation_id) (t_messages env))))"

text \<open>
  \<open>options.conversationHistory.slice(-6)\<close> of \<open>generateRAGResponse\<close>, commented
  \<open>Last 6 messages\<close> in the source.
\<close>

definition promptHistory :: "'a list \<Rightarrow> 'a list" where
  "promptHistory h = drop (length h - 6) h"

section \<open>The outcomes of the calls made by a loop\<close>

text \<open>
  The results of \<open>generateEmbeddings\<close> on the batches of the embedding loop, in order,
  each from the state the previous one left.
\<close>

fun embed_outcomes :: "'e world \<Rightarrow> 'e env \<Rightarrow> Chunk list list \<Rightarrow> (error + 'e list) list" where
  "embed_outcomes w env [] = []"
| "embed_outcomes w env (b # bs) =
     (case generateEmbeddings w env (map content b) of
        (r, env') \<Rightarrow> r # embed_outcomes w env' bs)"

text \<open>Whether each of the next calls to the vector index succeeds, from call \<open>k\<close> on.\<close>

fun upsert_outcomes :: "'e world \<Rightarrow> nat \<Rightarrow> 'a list \<Rightarrow> bool list" where
  "upsert_outcomes w k [] = []"
| "upsert_outcomes w k (b # bs) = vz_ok w k # upsert_outcomes w (k + 1) bs"

text \<open>The key of the embedding counter of the day, as \<open>generateEmbeddings\<close> computes it.\<close>

definition embedding_key :: "'e world \<Rightarrow> jsstring" where
  "embedding_key w = getRateLimitKey (today w) (js ''embedding'')"

text \<open>
  What a batch adds to \<open>vectorResults\<close>, given the result of its embedding: one record
  per chunk when it succeeded, nothing when it threw.
\<close>

definition contribution ::
  "uuid \<Rightarrow> file_row list \<Rightarrow> Chunk list \<times> (error + 'e list) \<Rightarrow> 'e EmbeddingResult list" where
  "contribution pid fileRecords br =
     (case br of
        (b, Inl e) \<Rightarrow> []
      | (b, Inr embeddings) \<Rightarrow>
          map (\<lambda>(j, c). vectorOf pid fileRecords embeddings j c) (enumerate 0 b))"

text \<open>The paths stored for a project.\<close>

definition stored_paths :: "'e env \<Rightarrow> uuid \<Rightarrow> jsstring list" where
  "stored_paths env pid = map relative_path (filter (\<lambda>f. f_project_id f = pid) (t_files env))"

text \<open>
  The new files of a request to append: its eligible files whose path is not among the
  paths stored for the project.
\<close>

definition new_files :: "'e env \<Rightarrow> uuid \<Rightarrow> input_file list \<Rightarrow> input_file list" where
  "new_files env pid fs =
     filter (\<lambda>f. shouldIndexFile (in_path f) \<and> in_path f \<notin> set (stored_paths env pid)) fs"

section \<open>Properties stated about the code\<close>

text \<open>
  \<open>span_of opts lines c\<close>: the chunk \<open>c\<close> carries the ids of \<open>opts\<close>, its line numbers lie
  within the file, and its content is the join of the lines \<open>start_line\<close> to \<open>end_line\<close>
  (1-based, inclusive); an empty range (\<open>end_line = start_line - 1\<close>) is let through.
  \<open>span_ok\<close> asks in addition for \<open>start_line \<le> end_line\<close>.
\<close>

definition span_of :: "ChunkOptions \<Rightarrow> jsstring list \<Rightarrow> 'a chunk_scheme \<Rightarrow> bool" where
  "span_of opts lines c \<longleftrightarrow>
     file_id c = fileId opts \<and> project_id c = projectId opts \<and>
     1 \<le> start_line c \<and> start_line c \<le> end_line c + 1 \<and> end_line c \<le> int (length lines) \<and>
     content c = js_join NL (slice lines (nat (start_line c - 1)) (nat (end_line c)))"

definition span_ok :: "ChunkOptions \<Rightarrow> jsstring list \<Rightarrow> 'a chunk_scheme \<Rightarrow> bool" where
  "span_ok opts lines c \<longleftrightarrow> span_of opts lines c \<and> start_line c \<le> end_line c"

text \<open>
  The invariant of the two windowing loops after the lines \<open>seen\<close>, of which the first
  \<open>off\<close> lie before the span being split.
\<close>

definition window_inv ::
  "ChunkOptions \<Rightarrow> jsstring list \<Rightarrow> nat \<Rightarrow> jsstring list \<Rightarrow> window_state \<Rightarrow> bool" where
  "window_inv opts lines off seen s \<longleftrightarrow>
     (case s of (i, cur, st, chunks) \<Rightarrow>
        off + i = length seen \<and> 0 \<le> st \<and> st \<le> int (length seen) \<and>
        cur = drop (nat st) seen \<and> list_all (span_ok opts lines) chunks)"

definition markdown_inv ::
  "ChunkOptions \<Rightarrow> jsstring list \<Rightarrow> jsstring list \<Rightarrow> markdown_state \<Rightarrow> bool" where
  "markdown_inv opts lines seen s \<longleftrightarrow>
     (case s of (i, st, cur, chunks) \<Rightarrow>
        i = length seen \<and> 0 \<le> st \<and> st \<le> int (length seen) \<and> cur = drop (nat st) seen \<and>
        list_all (span_of opts lines) chunks)"

text \<open>Consecutive boundaries lie more than 5 lines apart.\<close>

fun gaps :: "nat list \<Rightarrow> bool" where
  "gaps (x # y # r) \<longleftrightarrow> 5 < int y - int x \<and> gaps (y # r)"
| "gaps r \<longleftrightarrow> True"

definition boundaries_inv :: "nat \<Rightarrow> nat list \<Rightarrow> bool" where
  "boundaries_inv i bs \<longleftrightarrow>
     bs \<noteq> [] \<and> hd bs = 0 \<and> gaps bs \<and> sorted_wrt (<) bs \<and> list_all (\<lambda>b. b = 0 \<or> b < i) bs"

text \<open>A line is a candidate boundary when some pattern of the language matches it, trimmed.\<close>

definition candidate :: "rx list \<Rightarrow> jsstring \<Rightarrow> bool" where
  "candidate ps l \<longleftrightarrow> list_ex (\<lambda>pattern. rx_test pattern (trim l)) ps"

text \<open>
  The acceptance rule of \<open>detectCodeBoundaries\<close>: a line after the first is a boundary
  exactly when it is a candidate more than 5 lines after the greatest boundary before it.
\<close>

definition accepted_iff :: "rx list \<Rightarrow> jsstring list \<Rightarrow> nat list \<Rightarrow> bool" where
  "accepted_iff ps lines bs \<longleftrightarrow>
     (\<forall>k. 0 < k \<longrightarrow> k < length lines \<longrightarrow>
        (k \<in> set bs \<longleftrightarrow>
           candidate ps (lines ! k) \<and> 5 < int k - int (Max {b \<in> set bs. b < k})))"



text \<open>
  The chunks tile the lines \<open>s\<close> to \<open>n\<close>: the first starts at \<open>s\<close>, each next one on the
  line after the end of the one before, the last ends at \<open>n\<close>, and none is empty.
\<close>

fun tiles :: "int \<Rightarrow> int \<Rightarrow> 'a chunk_scheme list \<Rightarrow> bool" where
  "tiles s n [] \<longleftrightarrow> s = n + 1"
| "tiles s n (c # cs) \<longleftrightarrow> start_line c = s \<and> s \<le> end_line c \<and> tiles (end_line c + 1) n cs"

text \<open>No two chunks share a line.\<close>

fun disjoint_spans :: "'a chunk_scheme list \<Rightarrow> bool" where
  "disjoint_spans [] \<longleftrightarrow> True"
| "disjoint_spans (c # cs) \<longleftrightarrow>
     list_all (\<lambda>d. end_line c < start_line d \<or> end_line d < start_line c) cs \<and> disjoint_spans cs"

section \<open>Concrete inputs\<close>

text \<open>Six lines of a TypeScript file with a function on the last, after 5 and 6 blank lines.\<close>

definition five_blank_then_fn :: "jsstring list" where
  "five_blank_then_fn = replicate 5 [] @ [js ''function f() {'']"

definition six_blank_then_fn :: "jsstring list" where
  "six_blank_then_fn = replicate 6 [] @ [js ''function f() {''] "



text \<open>
  A world in which every embedding call throws and every call to the vector index
  succeeds; an empty store; a request to index one file of a new project.
\<close>

definition w0 :: "unit world" where
  "w0 = \<lparr>ai_run = (\<lambda>k texts. None), vz_ok = (\<lambda>k. True), now = 1700000000000,
          today = js ''2026-01-01'', sha256 = (\<lambda>s. [])\<rparr>"

definition env0 :: "unit env" where
  "env0 = \<lparr>t_projects = [], t_files = [], t_chunks = [], t_messages = [], KV = Map.empty,
           VECTORIZE = [], vz_log = [], ai_log = [], uuids = 0\<rparr>"

definition index_one :: "jsstring \<Rightarrow> jsstring \<Rightarrow> IndexRequest" where
  "index_one path text =
     \<lparr>rq_project_path = Some (js ''/p''), rq_project_name = None, rq_force = False,
      rq_append = False, rq_files = Some [\<lparr>in_path = path, in_content = text\<rparr>]\<rparr>"

text \<open>A Markdown file that starts with a blank line, and one of two sections.\<close>

definition blank_then_header :: jsstring where
  "blank_then_header = NL # js ''# A''"

definition two_sections :: jsstring where
  "two_sections = js ''# A'' @ NL # js ''x'' @ NL # js ''# B'' @ NL # js ''y''"

text \<open>The empty store with the embedding counter of the day seeded; a batch of 5 texts.\<close>

definition seeded :: "jsstring \<Rightarrow> unit env" where
  "seeded v = env0\<lparr>KV := [embedding_key w0 \<mapsto> v]\<rparr>"

definition five_texts :: "jsstring list" where
  "five_texts = [js ''a'', js ''b'', js ''c'', js ''d'', js ''e'']"

text \<open>
  A world in which the first embedding call throws and the later ones succeed, with the
  content itself for its hash; a request to index two files, and one to append two.
\<close>

definition w1 :: "unit world" where
  "w1 = \<lparr>ai_run = (\<lambda>k texts. if k = 0 then None else Some (map (\<lambda>t. ()) texts)),
          vz_ok = (\<lambda>k. True), now = 1700000000000, today = js ''2026-01-01'',
          sha256 = (\<lambda>s. s)\<rparr>"

definition index_ab :: IndexRequest where
  "index_ab =
     \<lparr>rq_project_path = Some (js ''/p''), rq_project_name = None, rq_force = False,
      rq_append = False,
      rq_files = Some [\<lparr>in_path = js ''a.ts'', in_content = js ''A''\<rparr>,
                       \<lparr>in_path = js ''b.ts'', in_content = js ''B''\<rparr>]\<rparr>"


text \<open>A request to append that names the new path \<open>c.ts\<close> twice.\<close>

definition append_cc :: IndexRequest where
  "append_cc =
     \<lparr>rq_project_path = Some (js ''/p''), rq_project_name = None, rq_force = False,
      rq_append = True,
      rq_files = Some [\<lparr>in_path = js ''c.ts'', in_content = js ''C''\<rparr>,
                       \<lparr>in_path = js ''c.ts'', in_content = js ''C''\<rparr>]\<rparr>"

text \<open>The 51 chunks of two embedding batches.\<close>

definition fifty_one_chunks :: "Chunk list" where
  "fifty_one_chunks =
     replicate 51 \<lparr>file_id = 1, project_id = 0, content = js ''hi'', start_line = 1,
                    end_line = 1, chunk_type = T_text, c_id = 2\<rparr>"

text \<open>A store whose conversation 7 holds the messages 1 to \<open>n\<close>, created in this order.\<close>

definition chat :: "nat \<Rightarrow> unit env" where
  "chat n =
     env0\<lparr>t_messages :=
            map (\<lambda>k. \<lparr>m_id = k, m_conversation_id = 7,
                       role = (if even k then js ''assistant'' else js ''user''),
                       m_content = digits k, m_sources = None, created_at = int k\<rparr>)
              [1..<n + 1]\<rparr>"

text \<open>
  A world in which the first call to the vector index fails and the later ones succeed;
  150 vector records.
\<close>

definition w2 :: "unit world" where
  "w2 = \<lparr>ai_run = (\<lambda>k texts. Some (map (\<lambda>t. ()) texts)), vz_ok = (\<lambda>k. k \<noteq> 0),
          now = 1700000000000, today = js ''2026-01-01'', sha256 = (\<lambda>s. s)\<rparr>"

definition vectors150 :: "unit EmbeddingResult list" where
  "vectors150 =
     replicate 150
       \<lparr>v_id = 2, v_values = Some (),
        v_metadata = \<lparr>md_chunk_id = 2, md_project_id = 0, md_file_path = js ''a.txt'',
                      md_file_type = T_text, md_start_line = 1, md_end_line = 1\<rparr>\<rparr>"

section \<open>Lines, join and split\<close>

lemma js_split_not_Nil: "js_split sep s \<noteq> []"
  by (induction s) auto

lemma js_join_Cons: "ls \<noteq> [] \<Longrightarrow> js_join sep (l # ls) = l @ sep # js_join sep ls"
  by (cases ls) auto

lemma js_join_split: "js_join sep (js_split sep s) = s"
proof (induction s)
  case Nil
  show ?case by simp
next
  case (Cons c cs)
  obtain l ls where sp: "js_split sep cs = l # ls"
    using js_split_not_Nil [of sep cs] by (cases "js_split sep cs") auto
  show ?case
  proof (cases "c = sep")
    case True
    then show ?thesis using Cons sp by (simp add: js_join_Cons)
  next
    case False
    then show ?thesis using Cons sp by (cases ls) auto
  qed
qed

lemma js_join_append:
  "xs \<noteq> [] \<Longrightarrow> ys \<noteq> [] \<Longrightarrow> js_join sep (xs @ ys) = js_join sep xs @ sep # js_join sep ys"
proof (induction xs)
  case Nil
  then show ?case by simp
next
  case (Cons x xs)
  show ?case
  proof (cases "xs = []")
    case True
    then show ?thesis using Cons.prems by (simp add: js_join_Cons)
  next
    case False
    then show ?thesis using Cons by (simp add: js_join_Cons)
  qed
qed

section \<open>The windowing loops keep each chunk on its lines\<close>

lemma slice_prefix:
  "lines = pre @ l # rest \<Longrightarrow> a \<le> length pre \<Longrightarrow>
   slice lines a (Suc (length pre)) = drop a pre @ [l]"
  by (simp add: slice_def)

lemma overlap_kept:
  fixes p :: "'a list"
  assumes "int (length p) = base + 1 - st" and "0 \<le> st" and "k \<le> length p"
    and "p = drop (nat st) q"
  shows "drop k p = drop (nat (base - int (length (drop k p)) + 1)) q"
    and "0 \<le> base - int (length (drop k p)) + 1"
    and "st \<le> base - int (length (drop k p)) + 1"
proof -
  have lk: "int (length (drop k p)) = int (length p) - int k"
    using assms(3) by (simp add: of_nat_diff)
  then have e: "base - int (length (drop k p)) + 1 = st + int k"
    using assms(1) by linarith
  then have "nat (base - int (length (drop k p)) + 1) = nat st + k"
    using assms(2) by (simp add: nat_add_distrib)
  then show "drop k p = drop (nat (base - int (length (drop k p)) + 1)) q"
    using assms(4) by (simp add: add.commute)
  show "0 \<le> base - int (length (drop k p)) + 1" using e assms(2) by linarith
  show "st \<le> base - int (length (drop k p)) + 1" using e by linarith
qed

text \<open>What one step of either windowing loop does to the state, with the window named.\<close>

lemma window_step_inv:
  assumes lines: "lines = seen @ l # rest" and inv: "window_inv opts lines off seen (i, cur, st, chunks)"
    and p: "p = cur @ [l]" and k: "k = nat (max 0 (int (length p) - int OVERLAP_LINES))"
  shows "window_inv opts lines off (seen @ [l]) (i + 1, p, st, chunks)"
    and "window_inv opts lines off (seen @ [l])
           (i + 1, drop k p, int off + int i - int (length (drop k p)) + 1,
            chunks @ [mk_chunk opts (js_join NL p) (st + 1) (int off + int i + 1) ty])"
    and "window_inv opts lines off (seen @ [l])
           (i + 1, drop k p, int off + int i - int (length (drop k p)) + 1, chunks)"
proof -
  from inv have i: "off + i = length seen" and st0: "0 \<le> st" and sti: "st \<le> int (length seen)"
    and cur: "cur = drop (nat st) seen" and ok: "list_all (span_ok opts lines) chunks"
    by (auto simp: window_inv_def)
  have a: "nat st \<le> length seen" using st0 sti by linarith
  have pushed: "p = drop (nat st) (seen @ [l])" using cur a by (simp add: p)
  have sl: "slice lines (nat st) (Suc (length seen)) = p"
    using slice_prefix [OF lines a] cur by (simp add: p)
  have oi: "int off + int i = int (length seen)" using i by linarith
  have new: "span_ok opts lines (mk_chunk opts (js_join NL p) (st + 1) (int off + int i + 1) ty)"
    using st0 sti sl lines oi
    by (simp add: span_ok_def span_of_def mk_chunk_def nat_add_distrib)
  have lenp: "int (length p) = (int off + int i) + 1 - st"
    using pushed a oi st0 by (simp add: of_nat_diff)
  have kle: "k \<le> length p" by (simp add: k)
  note kept = overlap_kept [OF lenp st0 kle pushed]
  have i': "off + (i + 1) = length (seen @ [l])" using i by simp
  have up: "int off + int i - int (length (drop k p)) + 1 \<le> int (length (seen @ [l]))"
    using oi by simp
  have st': "st \<le> int (length (seen @ [l]))" using sti by simp
  show "window_inv opts lines off (seen @ [l]) (i + 1, p, st, chunks)"
    unfolding window_inv_def prod.case using i' st0 st' pushed ok by blast
  have all: "list_all (span_ok opts lines)
      (chunks @ [mk_chunk opts (js_join NL p) (st + 1) (int off + int i + 1) ty])"
    using ok new by simp
  show "window_inv opts lines off (seen @ [l])
           (i + 1, drop k p, int off + int i - int (length (drop k p)) + 1,
            chunks @ [mk_chunk opts (js_join NL p) (st + 1) (int off + int i + 1) ty])"
    unfolding window_inv_def prod.case using i' kept(1,2) up all by blast
  show "window_inv opts lines off (seen @ [l])
           (i + 1, drop k p, int off + int i - int (length (drop k p)) + 1, chunks)"
    unfolding window_inv_def prod.case using i' kept(1,2) up ok by blast
qed

lemma chunkByLines_step_inv:
  assumes "lines = seen @ l # rest" and "window_inv opts lines 0 seen s"
  shows "window_inv opts lines 0 (seen @ [l]) (chunkByLines_step opts ty n s l)"
proof -
  obtain i cur st chunks where s: "s = (i, cur, st, chunks)" by (cases s) auto
  define p where "p = cur @ [l]"
  define k where "k = nat (max 0 (int (length p) - int OVERLAP_LINES))"
  note w = window_step_inv(1) [OF assms(1) assms(2) [unfolded s] p_def k_def]
    window_step_inv(2) [OF assms(1) assms(2) [unfolded s] p_def k_def, where ty = ty]
    window_step_inv(3) [OF assms(1) assms(2) [unfolded s] p_def k_def]
  define c where "c \<longleftrightarrow> MAX_CHUNK_CHARS \<le> length (js_join NL p) \<or> int i = int n - 1"
  define b where "b \<longleftrightarrow> 0 < length (trim (js_join NL p))"
  have res: "chunkByLines_step opts ty n s l =
    (if c
     then (i + 1, drop k p, int i - int (length (drop k p)) + 1,
           if b then chunks @ [mk_chunk opts (js_join NL p) (st + 1) (int i + 1) ty] else chunks)
     else (i + 1, p, st, chunks))"
    unfolding s chunkByLines_step_def p_def k_def c_def b_def by (simp add: Let_def)
  show ?thesis unfolding res using w by (cases c; cases b; simp)
qed

lemma chunkByLines_foldl_inv:
  "lines = seen @ rest \<Longrightarrow> window_inv opts lines 0 seen s \<Longrightarrow>
   window_inv opts lines 0 lines (foldl (chunkByLines_step opts ty n) s rest)"
proof (induction rest arbitrary: seen s)
  case Nil
  then show ?case by simp
next
  case (Cons l rest)
  have "window_inv opts lines 0 (seen @ [l]) (chunkByLines_step opts ty n s l)"
    using chunkByLines_step_inv Cons.prems by blast
  moreover have "lines = (seen @ [l]) @ rest" using Cons.prems by simp
  ultimately show ?case using Cons.IH by simp
qed

lemma chunkByLines_span_ok: "list_all (span_ok opts lines) (chunkByLines lines opts ty)"
proof -
  have "window_inv opts lines 0 [] (0, [], 0, [])" by (simp add: window_inv_def)
  then have "window_inv opts lines 0 lines
      (foldl (chunkByLines_step opts ty (length lines)) (0, [], 0, []) lines)"
    using chunkByLines_foldl_inv [of lines "[]" lines] by simp
  then show ?thesis
    by (auto simp: chunkByLines_def window_inv_def split: prod.splits)
qed

lemma splitLargeChunk_step_inv:
  assumes "lines = seen @ l # rest" and "window_inv opts lines off seen s"
  shows "window_inv opts lines off (seen @ [l]) (splitLargeChunk_step opts off s l)"
proof -
  obtain i cur st chunks where s: "s = (i, cur, st, chunks)" by (cases s) auto
  define p where "p = cur @ [l]"
  define k where "k = nat (max 0 (int (length p) - int OVERLAP_LINES))"
  note w = window_step_inv(1) [OF assms(1) assms(2) [unfolded s] p_def k_def]
    window_step_inv(2) [OF assms(1) assms(2) [unfolded s] p_def k_def, where ty = T_code]
    window_step_inv(3) [OF assms(1) assms(2) [unfolded s] p_def k_def]
  define c where "c \<longleftrightarrow> MAX_CHUNK_CHARS \<le> length (js_join NL p)"
  have res: "splitLargeChunk_step opts off s l =
    (if c
     then (i + 1, drop k p, int off + int i - int (length (drop k p)) + 1,
           chunks @ [mk_chunk opts (js_join NL p) (st + 1) (int off + int i + 1) T_code])
     else (i + 1, p, st, chunks))"
    unfolding s splitLargeChunk_step_def p_def k_def c_def by (simp add: Let_def)
  show ?thesis unfolding res using w by (cases c; simp)
qed

lemma splitLargeChunk_foldl_inv:
  "lines = seen @ rest @ after \<Longrightarrow> window_inv opts lines off seen s \<Longrightarrow>
   window_inv opts lines off (seen @ rest) (foldl (splitLargeChunk_step opts off) s rest)"
proof (induction rest arbitrary: seen s)
  case Nil
  then show ?case by simp
next
  case (Cons l rest)
  have "window_inv opts lines off (seen @ [l]) (splitLargeChunk_step opts off s l)"
    using splitLargeChunk_step_inv [of lines seen l "rest @ after"] Cons.prems by simp
  moreover have "lines = (seen @ [l]) @ rest @ after" using Cons.prems by simp
  ultimately show ?case using Cons.IH [of "seen @ [l]"] by simp
qed

lemma splitLargeChunk_span_ok:
  assumes "lines = before @ sub @ after"
  shows "list_all (span_ok opts lines) (splitLargeChunk sub (length before) opts)"
proof -
  obtain i cur st chunks where
    f: "foldl (splitLargeChunk_step opts (length before)) (0, [], int (length before), []) sub
        = (i, cur, st, chunks)"
    by (cases "foldl (splitLargeChunk_step opts (length before)) (0, [], int (length before), []) sub")
      auto
  have "window_inv opts lines (length before) before (0, [], int (length before), [])"
    by (simp add: window_inv_def)
  then have "window_inv opts lines (length before) (before @ sub) (i, cur, st, chunks)"
    using splitLargeChunk_foldl_inv [OF assms, where off = "length before" and opts = opts] f by metis
  then have st0: "0 \<le> st" and sti: "st \<le> int (length (before @ sub))"
    and cur: "cur = drop (nat st) (before @ sub)" and ok: "list_all (span_ok opts lines) chunks"
    by (auto simp: window_inv_def)
  have "span_ok opts lines (mk_chunk opts (js_join NL cur) (st + 1)
          (int (length before) + int (length sub)) T_code)" if "0 < length cur"
  proof -
    have "length cur = length (before @ sub) - nat st" unfolding cur by (rule length_drop)
    then have lt: "nat st < length (before @ sub)" using that by linarith
    have "slice lines (nat st) (length before + length sub) = cur"
      using assms cur lt by (simp add: slice_def)
    moreover have "st + 1 \<le> int (length before) + int (length sub)" using st0 lt by simp
    moreover have "int (length before) + int (length sub) \<le> int (length lines)"
      using assms by simp
    ultimately show ?thesis using st0
      by (simp add: span_ok_def span_of_def mk_chunk_def nat_add_distrib)
  qed
  then show ?thesis using ok by (simp add: splitLargeChunk_def f)
qed

section \<open>Boundaries, and the chunks of chunkCode\<close>

lemma gaps_snoc: "bs \<noteq> [] \<Longrightarrow> gaps bs \<Longrightarrow> 5 < int i - int (last bs) \<Longrightarrow> gaps (bs @ [i])"
  by (induction bs rule: gaps.induct) auto

lemma sorted_le_last: "sorted_wrt (<) bs \<Longrightarrow> (x::nat) \<in> set bs \<Longrightarrow> x \<le> last bs"
  by (induction bs) (auto simp: less_imp_le)

lemma sorted_snoc:
  assumes "sorted_wrt (<) bs" and "bs \<noteq> []" and "last bs < (i::nat)"
  shows "sorted_wrt (<) (bs @ [i])"
proof -
  have "x < i" if "x \<in> set bs" for x
    using sorted_le_last [OF assms(1) that] assms(3) by linarith
  then show ?thesis using assms(1) by (simp add: sorted_wrt_append)
qed

lemma detectCodeBoundaries_step_inv:
  assumes "boundaries_inv i bs"
  shows "\<exists>bs'. detectCodeBoundaries_step (Some ps) (Inr (i, bs)) l = Inr (i + 1, bs') \<and>
           boundaries_inv (i + 1) bs'"
proof -
  have weak: "list_all (\<lambda>b. b = 0 \<or> b < i + 1) bs"
    using assms by (auto simp: boundaries_inv_def list_all_iff)
  have keep: "boundaries_inv (i + 1) bs"
    using assms weak by (simp add: boundaries_inv_def)
  have push: "boundaries_inv (i + 1) (bs @ [i])" if "5 < int i - int (last bs)"
  proof -
    have "last bs < i" using that by linarith
    then have "sorted_wrt (<) (bs @ [i])"
      using sorted_snoc [of bs i] assms by (simp add: boundaries_inv_def)
    then show ?thesis
      using assms weak that gaps_snoc [of bs i] by (simp add: boundaries_inv_def)
  qed
  show ?thesis
    using keep push
    by (auto simp: detectCodeBoundaries_step_def Let_def split: option.splits)
qed

lemma detectCodeBoundaries_foldl:
  "boundaries_inv i bs \<Longrightarrow>
   \<exists>bs'. foldl (detectCodeBoundaries_step (Some ps)) (Inr (i, bs)) ls = Inr (i + length ls, bs') \<and>
     boundaries_inv (i + length ls) bs'"
proof (induction ls arbitrary: i bs)
  case Nil
  then show ?case by simp
next
  case (Cons l ls)
  obtain bs1 where s: "detectCodeBoundaries_step (Some ps) (Inr (i, bs)) l = Inr (i + 1, bs1)"
    and inv: "boundaries_inv (i + 1) bs1"
    using detectCodeBoundaries_step_inv [OF Cons.prems] by blast
  show ?case using Cons.IH [OF inv] s by simp
qed

lemma detectCodeBoundaries_foldl_Inl:
  "foldl (detectCodeBoundaries_step lp) (Inl e) ls = Inl e"
  by (induction ls) (auto simp: detectCodeBoundaries_step_def)

lemma detectCodeBoundaries_None:
  assumes "langPatterns path = None" and "lines \<noteq> []"
  shows "detectCodeBoundaries lines path = Inl TypeError"
proof -
  obtain l ls where "lines = l # ls" using assms(2) by (cases lines) auto
  then show ?thesis
    using assms(1)
    by (simp add: detectCodeBoundaries_def Let_def detectCodeBoundaries_foldl_Inl
        detectCodeBoundaries_step_def [of None "Inr (0, [0])"])
qed

lemma detectCodeBoundaries_Some:
  assumes "langPatterns path = Some ps"
  shows "\<exists>bs. detectCodeBoundaries lines path = Inr bs \<and> boundaries_inv (length lines) bs"
proof -
  have "boundaries_inv 0 [0]" by (simp add: boundaries_inv_def)
  from detectCodeBoundaries_foldl [OF this, of ps lines]
  show ?thesis using assms by (auto simp: detectCodeBoundaries_def Let_def)
qed

lemma slice_decomp:
  "a \<le> b \<Longrightarrow> b \<le> length xs \<Longrightarrow> xs = take a xs @ slice xs a b @ drop b xs"
proof -
  assume ab: "a \<le> b" and b: "b \<le> length xs"
  have "drop a xs = take (b - a) (drop a xs) @ drop (b - a) (drop a xs)"
    by (rule append_take_drop_id [symmetric])
  also have "drop (b - a) (drop a xs) = drop b xs" using ab by simp
  finally have "take a xs @ drop a xs = take a xs @ slice xs a b @ drop b xs"
    by (simp add: slice_def)
  then show ?thesis by simp
qed

lemma chunkCode_step_span_ok:
  assumes "start < e" and "e \<le> length lines"
    and "e = (case next of None \<Rightarrow> length lines | Some b \<Rightarrow> b)"
    and "list_all (span_ok opts lines) chunks"
  shows "list_all (span_ok opts lines) (chunkCode_step opts lines start next chunks)"
proof -
  have le: "start \<le> e" using assms(1) by simp
  have dec: "lines = take start lines @ slice lines start e @ drop e lines"
    using slice_decomp [OF le assms(2)] .
  have len: "length (take start lines) = start" using assms(1,2) by simp
  have big: "list_all (span_ok opts lines) (splitLargeChunk (slice lines start e) start opts)"
    using splitLargeChunk_span_ok [OF dec, of opts] len by simp
  have one: "span_ok opts lines (mk_chunk opts (js_join NL (slice lines start e)) (int start + 1)
      (int e) T_code)"
    using assms(1,2) by (simp add: span_ok_def span_of_def mk_chunk_def)
  show ?thesis
    using big one assms(3,4) by (simp add: chunkCode_step_def Let_def)
qed

lemma gaps_Cons: "gaps (x # y # r) \<Longrightarrow> x < y \<and> gaps (y # r)"
  by simp

lemma chunkCode_loop_span_ok:
  "gaps bs \<Longrightarrow> list_all (\<lambda>b. b < length lines) bs \<Longrightarrow> list_all (span_ok opts lines) chunks \<Longrightarrow>
   list_all (span_ok opts lines) (chunkCode_loop opts lines bs chunks)"
proof (induction opts lines bs chunks rule: chunkCode_loop.induct)
  case (1 opts lines chunks)
  then show ?case by simp
next
  case (2 opts lines start chunks)
  then show ?case using chunkCode_step_span_ok [of start "length lines" lines None] by simp
next
  case (3 opts lines start b bs chunks)
  have "list_all (span_ok opts lines) (chunkCode_step opts lines start (Some b) chunks)"
    using chunkCode_step_span_ok [of start b lines "Some b"] "3.prems" by simp
  then show ?case using "3.IH" "3.prems" by simp
qed

lemma boundaries_inv_bound:
  "boundaries_inv n bs \<Longrightarrow> 0 < n \<Longrightarrow> list_all (\<lambda>b. b < n) bs"
  by (auto simp: boundaries_inv_def list_all_iff)

lemma chunkCode_span_ok:
  assumes "chunkCode contents opts = Inr cs"
  shows "list_all (span_ok opts (js_split NL contents)) cs"
proof -
  let ?lines = "js_split NL contents"
  have n: "0 < length ?lines" using js_split_not_Nil by simp
  show ?thesis
  proof (cases "langPatterns (filePath opts)")
    case None
    then have "detectCodeBoundaries ?lines (filePath opts) = Inl TypeError"
      using detectCodeBoundaries_None n by simp
    then show ?thesis using assms by (simp add: chunkCode_def Let_def)
  next
    case (Some ps)
    then obtain bs where d: "detectCodeBoundaries ?lines (filePath opts) = Inr bs"
      and inv: "boundaries_inv (length ?lines) bs"
      using detectCodeBoundaries_Some by blast
    have "list_all (span_ok opts ?lines) (chunkCode_loop opts ?lines bs [])"
      using chunkCode_loop_span_ok [where bs = bs and lines = ?lines and chunks = "[]" and opts = opts] inv boundaries_inv_bound [OF inv n]
      by (simp add: boundaries_inv_def)
    then show ?thesis using assms d inv by (auto simp: chunkCode_def Let_def boundaries_inv_def)
  qed
qed

section \<open>The chunks of chunkMarkdown, chunkConfig and chunkFile\<close>

lemma span_ok_span_of: "list_all (span_ok opts lines) cs \<Longrightarrow> list_all (span_of opts lines) cs"
  by (auto simp: span_ok_def list_all_iff)

lemma chunkMarkdown_step_inv:
  assumes lines: "lines = seen @ l # rest" and inv: "markdown_inv opts lines seen s"
  shows "markdown_inv opts lines (seen @ [l]) (chunkMarkdown_step opts s l)"
proof -
  obtain i st cur chunks where s: "s = (i, st, cur, chunks)" by (cases s) auto
  from inv s have i: "i = length seen" and st0: "0 \<le> st" and sti: "st \<le> int (length seen)"
    and cur: "cur = drop (nat st) seen" and ok: "list_all (span_of opts lines) chunks"
    by (auto simp: markdown_inv_def)
  have a: "nat st \<le> length seen" using st0 sti by linarith
  define p where "p = cur @ [l]"
  define sp where "sp = length p div 2"
  define h where "h \<longleftrightarrow> rx_test headerPattern l \<and> 0 < length cur"
  define b where "b \<longleftrightarrow> 0 < length (trim (js_join NL cur))"
  define g where "g \<longleftrightarrow> MAX_CHUNK_CHARS < length (js_join NL p)"
  have res: "chunkMarkdown_step opts s l =
    (if h then (i + 1, int i, [l],
        if b then chunks @ [mk_chunk opts (js_join NL cur) (st + 1) (int i) T_markdown] else chunks)
     else if g then (i + 1, st + int sp, drop sp p,
        chunks @ [mk_chunk opts (js_join NL (slice p 0 sp)) (st + 1) (st + int sp) T_markdown])
     else (i + 1, st, p, chunks))"
    unfolding s chunkMarkdown_step_def p_def sp_def h_def b_def g_def by (simp add: Let_def)
  have pushed: "p = drop (nat st) (seen @ [l])" using cur a by (simp add: p_def)
  have lenp: "length p = Suc (length seen) - nat st" using pushed by simp
  have sple: "sp \<le> length p" by (simp add: sp_def)
  have i': "i + 1 = length (seen @ [l])" using i by simp
  \<comment> \<open>header branch\<close>
  have hd_chunk: "span_of opts lines (mk_chunk opts (js_join NL cur) (st + 1) (int i) T_markdown)"
    if "0 < length cur"
  proof -
    have "length cur = length seen - nat st" unfolding cur by (rule length_drop)
    then have lt: "nat st < length seen" using that by linarith
    have "slice lines (nat st) (length seen) = cur"
      using lines cur lt by (simp add: slice_def)
    then show ?thesis using st0 lt i lines
      by (simp add: span_of_def mk_chunk_def nat_add_distrib)
  qed
  have hd_state: "[l] = drop (nat (int i)) (seen @ [l])" using i by simp
  have c1: "markdown_inv opts lines (seen @ [l]) (i + 1, int i, [l],
        if b then chunks @ [mk_chunk opts (js_join NL cur) (st + 1) (int i) T_markdown] else chunks)"
    if h
  proof -
    have "list_all (span_of opts lines)
        (if b then chunks @ [mk_chunk opts (js_join NL cur) (st + 1) (int i) T_markdown] else chunks)"
      using ok hd_chunk that by (simp add: h_def)
    moreover have "int i \<le> int (length (seen @ [l]))" using i by simp
    ultimately show ?thesis
      unfolding markdown_inv_def prod.case using i' hd_state by simp
  qed
  \<comment> \<open>split branch\<close>
  have "slice lines (nat st) (nat st + sp) = take sp p"
  proof -
    have "drop (nat st) lines = p @ rest" using lines pushed a by simp
    then show ?thesis using sple by (simp add: slice_def)
  qed
  then have half: "span_of opts lines
      (mk_chunk opts (js_join NL (slice p 0 sp)) (st + 1) (st + int sp) T_markdown)"
    using st0 sple lenp a lines
    by (simp add: span_of_def mk_chunk_def nat_add_distrib slice_def)
  have "nat (st + int sp) = sp + nat st" using st0 by (simp add: nat_add_distrib)
  then have rest2: "drop sp p = drop (nat (st + int sp)) (seen @ [l])"
    unfolding pushed by (simp only: drop_drop)
  have up2: "st + int sp \<le> int (length (seen @ [l]))"
    using sple lenp a st0 by simp
  have c2: "markdown_inv opts lines (seen @ [l]) (i + 1, st + int sp, drop sp p,
        chunks @ [mk_chunk opts (js_join NL (slice p 0 sp)) (st + 1) (st + int sp) T_markdown])"
    unfolding markdown_inv_def prod.case using i' st0 up2 rest2 ok half by simp
  have c3: "markdown_inv opts lines (seen @ [l]) (i + 1, st, p, chunks)"
    unfolding markdown_inv_def prod.case using i' st0 sti pushed ok by simp
  show ?thesis unfolding res using c1 c2 c3 by (cases h; cases g; simp)
qed

lemma chunkMarkdown_foldl_inv:
  "lines = seen @ rest \<Longrightarrow> markdown_inv opts lines seen s \<Longrightarrow>
   markdown_inv opts lines lines (foldl (chunkMarkdown_step opts) s rest)"
proof (induction rest arbitrary: seen s)
  case Nil
  then show ?case by simp
next
  case (Cons l rest)
  have "markdown_inv opts lines (seen @ [l]) (chunkMarkdown_step opts s l)"
    using chunkMarkdown_step_inv Cons.prems by blast
  moreover have "lines = (seen @ [l]) @ rest" using Cons.prems by simp
  ultimately show ?case using Cons.IH by simp
qed

lemma chunkMarkdown_span_of:
  "list_all (span_of opts (js_split NL contents)) (chunkMarkdown contents opts)"
proof -
  let ?lines = "js_split NL contents"
  obtain i st cur chunks where
    f: "foldl (chunkMarkdown_step opts) (0, 0, [], []) ?lines = (i, st, cur, chunks)"
    by (cases "foldl (chunkMarkdown_step opts) (0, 0, [], []) ?lines") auto
  have "markdown_inv opts ?lines [] (0, 0, [], [])" by (simp add: markdown_inv_def)
  then have "markdown_inv opts ?lines ?lines (foldl (chunkMarkdown_step opts) (0, 0, [], []) ?lines)"
    using chunkMarkdown_foldl_inv [of ?lines "[]" ?lines] by simp
  then have "markdown_inv opts ?lines ?lines (i, st, cur, chunks)"
    unfolding f .
  then have st0: "0 \<le> st" and cur: "cur = drop (nat st) ?lines"
    and ok: "list_all (span_of opts ?lines) chunks"
    by (auto simp: markdown_inv_def)
  have "span_of opts ?lines (mk_chunk opts (js_join NL cur) (st + 1) (int (length ?lines)) T_markdown)"
    if "0 < length cur"
  proof -
    have "length cur = length ?lines - nat st" unfolding cur by (rule length_drop)
    then have lt: "nat st < length ?lines" using that by linarith
    have "slice ?lines (nat st) (length ?lines) = cur" using cur by (simp add: slice_def)
    then show ?thesis using st0 lt by (simp add: span_of_def mk_chunk_def nat_add_distrib)
  qed
  then show ?thesis using ok by (simp add: chunkMarkdown_def Let_def f)
qed

lemma chunkConfig_span_ok:
  "list_all (span_ok opts (js_split NL contents)) (chunkConfig contents opts)"
proof -
  have "0 < length (js_split NL contents)" using js_split_not_Nil [of NL contents] by simp
  then have "1 \<le> int (length (js_split NL contents))" by linarith
  then have "span_ok opts (js_split NL contents)
      (mk_chunk opts contents 1 (int (length (js_split NL contents))) T_config)"
    by (simp add: span_ok_def span_of_def mk_chunk_def slice_def js_join_split)
  then show ?thesis by (simp add: chunkConfig_def chunkByLines_span_ok)
qed

lemma chunkFile_span_of:
  assumes "chunkFile contents opts = Inr cs"
  shows "list_all (span_of opts (js_split NL contents)) cs"
  using assms chunkMarkdown_span_of [where contents = contents and opts = opts]
    chunkConfig_span_ok [where contents = contents and opts = opts]
    chunkByLines_span_ok [where lines = "js_split NL contents" and opts = opts and ty = T_text]
    chunkCode_span_ok [where contents = contents and opts = opts and cs = cs]
  by (auto simp: chunkFile_def chunkText_def span_ok_span_of split: chunk_type.splits)

lemma chunkFile_span_ok:
  assumes "chunkFile contents opts = Inr cs" and "getFileType (filePath opts) \<noteq> T_markdown"
  shows "list_all (span_ok opts (js_split NL contents)) cs"
  using assms chunkConfig_span_ok [where contents = contents and opts = opts]
    chunkByLines_span_ok [where lines = "js_split NL contents" and opts = opts and ty = T_text]
    chunkCode_span_ok [where contents = contents and opts = opts and cs = cs]
  by (auto simp: chunkFile_def chunkText_def split: chunk_type.splits)

section \<open>A Markdown file of one long line\<close>

lemma js_split_no_sep: "sep \<notin> set s \<Longrightarrow> js_split sep s = [s]"
  by (induction s) auto

lemma ft_md: "getFileType (js ''a.md'') = T_markdown"
  by (simp add: getFileType_def getFileExtension_def js_def toLowerCase_def
      codeExtensions_def markdownExtensions_def Let_def)

lemma chunkMarkdown_one_long_line:
  assumes "NL \<notin> set s" and "\<not> rx_test headerPattern s" and "MAX_CHUNK_CHARS < length s"
    and "0 < length (trim s)"
  shows "chunkMarkdown s opts =
    [mk_chunk opts [] 1 0 T_markdown, mk_chunk opts s 1 1 T_markdown]"
  using assms
  by (simp add: chunkMarkdown_def js_split_no_sep chunkMarkdown_step_def Let_def slice_def)

lemma x_not_header: "\<not> rx_test headerPattern (replicate 2049 120)"
  by (simp add: rx_test_def headerPattern_def js_def)

lemma x_trim: "trim (replicate 2049 120) = replicate 2049 120"
  by (simp add: trim_def dropWhile_replicate isWhiteSpace_def)

lemma max_chars: "MAX_CHUNK_CHARS = 2048"
  by (simp add: MAX_CHUNK_CHARS_def MAX_CHUNK_TOKENS_def APPROX_CHARS_PER_TOKEN_def)

text \<open>
  Claim C1 (every emitted chunk has \<open>start_line \<le> end_line\<close> and its content is the
  join of its lines): the code run at a Markdown file of one line of 2049 characters. The
  midpoint split of a window of one line puts no line in the first half, and that half is
  emitted unchecked: a chunk with empty content, \<open>start_line = 1\<close> and \<open>end_line = 0\<close>.
\<close>

theorem chunkFile_markdown_long_line:
  "chunkFile (replicate 2049 120) \<lparr>fileId = 1, projectId = 2, filePath = js ''a.md''\<rparr> =
     Inr [\<lparr>file_id = 1, project_id = 2, content = [], start_line = 1, end_line = 0,
           chunk_type = T_markdown\<rparr>,
          \<lparr>file_id = 1, project_id = 2, content = replicate 2049 120, start_line = 1,
           end_line = 1, chunk_type = T_markdown\<rparr>]"
proof -
  have "NL \<notin> set (replicate 2049 (120 :: cu))" by (simp add: NL_def)
  moreover have "MAX_CHUNK_CHARS < length (replicate 2049 (120 :: cu))"
    by (simp add: max_chars)
  moreover have "0 < length (trim (replicate 2049 120))" by (simp add: x_trim)
  ultimately show ?thesis
    using chunkMarkdown_one_long_line [OF _ x_not_header, where opts = "\<lparr>fileId = 1, projectId = 2, filePath = js ''a.md''\<rparr>"]
    by (simp add: chunkFile_def ft_md mk_chunk_def)
qed

section \<open>The spacing of code boundaries\<close>

lemma Max_sorted_last:
  assumes "sorted_wrt (<) bs" and "bs \<noteq> []"
  shows "Max (set bs) = last (bs :: nat list)"
proof (rule Max_eqI)
  show "finite (set bs)" by simp
  show "y \<le> last bs" if "y \<in> set bs" for y using sorted_le_last [OF assms(1) that] .
  show "last bs \<in> set bs" using assms(2) by simp
qed

lemma candidate_find:
  "candidate ps l \<longleftrightarrow> find (\<lambda>pattern. rx_test pattern (trim l)) ps \<noteq> None"
  by (auto simp: candidate_def find_None_iff list_ex_iff)

lemma detectCodeBoundaries_step_Some:
  "detectCodeBoundaries_step (Some ps) (Inr (n, bs)) l =
     Inr (n + 1, if candidate ps l \<and> 5 < int n - int (last bs) then bs @ [n] else bs)"
  by (cases "find (\<lambda>pattern. rx_test pattern (trim l)) ps")
    (simp_all add: candidate_find detectCodeBoundaries_step_def)

lemma detectCodeBoundaries_run:
  "\<exists>bs. foldl (detectCodeBoundaries_step (Some ps)) (Inr (0, [0])) lines = Inr (length lines, bs) \<and>
     boundaries_inv (length lines) bs \<and> accepted_iff ps lines bs"
proof (induction lines rule: rev_induct)
  case Nil
  show ?case by (simp add: boundaries_inv_def accepted_iff_def)
next
  case (snoc l lines)
  let ?n = "length lines"
  obtain bs where run: "foldl (detectCodeBoundaries_step (Some ps)) (Inr (0, [0])) lines = Inr (?n, bs)"
    and inv: "boundaries_inv ?n bs" and acc: "accepted_iff ps lines bs"
    using snoc.IH by blast
  define a where "a \<longleftrightarrow> candidate ps l \<and> 5 < int ?n - int (last bs)"
  define bs' where "bs' = (if a then bs @ [?n] else bs)"
  have step: "foldl (detectCodeBoundaries_step (Some ps)) (Inr (0, [0])) (lines @ [l]) =
      Inr (length (lines @ [l]), bs')"
    using run by (simp add: detectCodeBoundaries_step_Some bs'_def a_def)
  obtain bs2 where s2: "detectCodeBoundaries_step (Some ps) (Inr (?n, bs)) l = Inr (?n + 1, bs2)"
    and inv2: "boundaries_inv (?n + 1) bs2"
    using detectCodeBoundaries_step_inv [OF inv] by blast
  have "bs2 = bs'" using s2 by (simp add: detectCodeBoundaries_step_Some bs'_def a_def)
  then have inv': "boundaries_inv (length (lines @ [l])) bs'" using inv2 by simp
  have ne: "bs \<noteq> []" and srt: "sorted_wrt (<) bs" and bnd: "list_all (\<lambda>b. b = 0 \<or> b < ?n) bs"
    using inv by (auto simp: boundaries_inv_def)
  have below: "{b \<in> set bs'. b < k} = {b \<in> set bs. b < k}" if "k \<le> ?n" for k
    using that by (auto simp: bs'_def)
  have "k \<in> set bs' \<longleftrightarrow>
      candidate ps ((lines @ [l]) ! k) \<and> 5 < int k - int (Max {b \<in> set bs'. b < k})"
    if k0: "0 < k" and kn: "k < length (lines @ [l])" for k
  proof (cases "k < ?n")
    case True
    have "k \<in> set bs' \<longleftrightarrow> k \<in> set bs" using True by (auto simp: bs'_def)
    moreover have "(lines @ [l]) ! k = lines ! k" using True by (simp add: nth_append)
    ultimately show ?thesis using acc k0 True below [of k] by (simp add: accepted_iff_def)
  next
    case False
    then have k: "k = ?n" using kn by simp
    have all: "b < ?n" if "b \<in> set bs" for b
      using bnd that k0 k by (auto simp: list_all_iff)
    then have "{b \<in> set bs. b < ?n} = set bs" by auto
    then have mx: "Max {b \<in> set bs'. b < k} = last bs"
      using below [of k] k Max_sorted_last [OF srt ne] by simp
    have "?n \<notin> set bs" using all by blast
    then have "k \<in> set bs' \<longleftrightarrow> a" using k by (simp add: bs'_def)
    then show ?thesis using k mx by (simp add: a_def)
  qed
  then have "accepted_iff ps (lines @ [l]) bs'" by (simp add: accepted_iff_def)
  then show ?case using step inv' by blast
qed

text \<open>
  Claim C6, as the code has it. For a path whose language patterns are \<open>ps\<close>,
  \<open>detectCodeBoundaries\<close> returns boundaries that start with line 0 and lie pairwise more
  than 5 lines apart, and a line \<open>k > 0\<close> is among them if and only if it is a candidate
  and \<open>k - b > 5\<close> for the previously accepted boundary \<open>b\<close> (the greatest boundary
  below \<open>k\<close>): at least 6 lines, not 5.
\<close>

theorem detectCodeBoundaries_accepts:
  assumes "langPatterns path = Some ps"
  shows "\<exists>bs. detectCodeBoundaries lines path = Inr bs \<and> hd bs = 0 \<and> gaps bs \<and>
     (\<forall>k. 0 < k \<longrightarrow> k < length lines \<longrightarrow>
        (k \<in> set bs \<longleftrightarrow>
           candidate ps (lines ! k) \<and> 5 < int k - int (Max {b \<in> set bs. b < k})))"
proof -
  obtain bs where "foldl (detectCodeBoundaries_step (Some ps)) (Inr (0, [0])) lines
      = Inr (length lines, bs)"
    and "boundaries_inv (length lines) bs" and "accepted_iff ps lines bs"
    using detectCodeBoundaries_run by blast
  then show ?thesis
    using assms by (auto simp: detectCodeBoundaries_def boundaries_inv_def accepted_iff_def)
qed

lemma ts_patterns: "langPatterns (js ''a.ts'') = Some [fnPattern, classPattern, constPattern]"
  by (simp add: langPatterns_def patterns_def js_def toLowerCase_def)

lemma fn_candidate: "candidate [fnPattern, classPattern, constPattern] (js ''function f() {'')"
  by (simp add: candidate_def fnPattern_def rx_test_def js_def trim_def isWhiteSpace_def
      many1_def isWordChar_def)

lemma blank_not_candidate: "\<not> candidate [fnPattern, classPattern, constPattern] []"
  by (simp add: candidate_def fnPattern_def classPattern_def constPattern_def rx_test_def
      js_def trim_def)

text \<open>
  Claim C6 as stated fails: in a TypeScript file whose line 5 is the first line that
  matches a pattern, that candidate lies exactly 5 lines after the boundary at line 0 and
  is not accepted.
\<close>

theorem detectCodeBoundaries_five_lines_rejected:
  "candidate [fnPattern, classPattern, constPattern] (five_blank_then_fn ! 5) \<and>
   detectCodeBoundaries five_blank_then_fn (js ''a.ts'') = Inr [0]"
  using fn_candidate blank_not_candidate
  by (simp add: five_blank_then_fn_def detectCodeBoundaries_def ts_patterns
      detectCodeBoundaries_step_Some numeral_eq_Suc)

section \<open>Code files without boundaries\<close>

lemma trim_blank_iff: "trim s = [] \<longleftrightarrow> list_all isWhiteSpace s"
proof -
  have "dropWhile isWhiteSpace (rev (dropWhile isWhiteSpace s)) = [] \<longleftrightarrow>
      dropWhile isWhiteSpace s = []"
  proof
    assume a: "dropWhile isWhiteSpace (rev (dropWhile isWhiteSpace s)) = []"
    show "dropWhile isWhiteSpace s = []"
    proof (rule ccontr)
      assume ne: "dropWhile isWhiteSpace s \<noteq> []"
      then have "\<not> isWhiteSpace (hd (dropWhile isWhiteSpace s))" by (rule hd_dropWhile)
      moreover have "hd (dropWhile isWhiteSpace s) \<in> set (rev (dropWhile isWhiteSpace s))"
        using ne by simp
      ultimately show False using a by (auto simp: dropWhile_eq_Nil_conv)
    qed
  next
    assume "dropWhile isWhiteSpace s = []"
    then show "dropWhile isWhiteSpace (rev (dropWhile isWhiteSpace s)) = []"
      by (simp only: rev.simps dropWhile.simps)
  qed
  then have "trim s = [] \<longleftrightarrow> dropWhile isWhiteSpace s = []" by (simp add: trim_def)
  also have "\<dots> \<longleftrightarrow> list_all isWhiteSpace s"
    by (simp only: dropWhile_eq_Nil_conv list_all_iff)
  finally show ?thesis .
qed
















lemma nonblank_iff: "0 < length (trim s) \<longleftrightarrow> \<not> list_all isWhiteSpace s"
  using trim_blank_iff [of s] by auto















text \<open>
  The theorem of claim C6 at a TypeScript file whose line 6 is the first candidate: it is
  accepted.
\<close>

theorem detectCodeBoundaries_accepts_witness:
  "langPatterns (js ''a.ts'') = Some [fnPattern, classPattern, constPattern] \<and>
   detectCodeBoundaries six_blank_then_fn (js ''a.ts'') = Inr [0, 6] \<and>
   ((6::nat) \<in> set [0, 6] \<longleftrightarrow>
      candidate [fnPattern, classPattern, constPattern] (six_blank_then_fn ! 6) \<and>
      5 < int 6 - int (Max {b \<in> set [0, 6]. b < 6}))"
proof -
  have v: "detectCodeBoundaries six_blank_then_fn (js ''a.ts'') = Inr [0, 6]"
    using fn_candidate blank_not_candidate
    by (simp add: six_blank_then_fn_def detectCodeBoundaries_def ts_patterns
        detectCodeBoundaries_step_Some numeral_eq_Suc)
  obtain bs where b: "detectCodeBoundaries six_blank_then_fn (js ''a.ts'') = Inr bs"
    and acc: "\<forall>k. 0 < k \<longrightarrow> k < length six_blank_then_fn \<longrightarrow>
        (k \<in> set bs \<longleftrightarrow>
           candidate [fnPattern, classPattern, constPattern] (six_blank_then_fn ! k) \<and>
           5 < int k - int (Max {b \<in> set bs. b < k}))"
    using detectCodeBoundaries_accepts [OF ts_patterns, of six_blank_then_fn] by blast
  have bs: "bs = [0, 6]" using b v by simp
  have "(6::nat) < length six_blank_then_fn" by (simp add: six_blank_then_fn_def)
  then have "(6::nat) \<in> set bs \<longleftrightarrow>
      candidate [fnPattern, classPattern, constPattern] (six_blank_then_fn ! 6) \<and>
      5 < int 6 - int (Max {b \<in> set bs. b < 6})"
    using acc by simp
  then show ?thesis using v ts_patterns unfolding bs by blast
qed

section \<open>Reading a file back from its chunks\<close>

lemma insort_key_map:
  "insort_key f (g x) (map g xs) = map g (insort_key (\<lambda>a. f (g a)) x xs)"
  by (induction xs) auto

lemma sort_key_map: "sort_key f (map g xs) = map g (sort_key (\<lambda>a. f (g a)) xs)"
  by (induction xs) (auto simp: insort_key_map)

lemma start_line_truncate: "(\<lambda>a. start_line (chunk.truncate a)) = start_line"
  by (rule ext) (simp add: chunk.truncate_def)

lemma tiles_truncate: "tiles s n (map chunk.truncate xs) = tiles s n xs"
  by (induction xs arbitrary: s) (auto simp: chunk.truncate_def)

lemma span_of_truncate: "span_of opts lines (chunk.truncate r) = span_of opts lines r"
  by (simp add: span_of_def chunk.truncate_def)

lemma content_truncate: "map content (map chunk.truncate xs) = map content xs"
  by (simp add: chunk.truncate_def)

lemma truncate_extend: "chunk.truncate (chunk.extend c x) = c"
  by (simp add: chunk.truncate_def chunk.extend_def)

lemma slice_nonempty: "a < b \<Longrightarrow> a < length xs \<Longrightarrow> slice xs a b \<noteq> []"
  by (simp add: slice_def)

lemma assignChunkIds_truncate: "map chunk.truncate (fst (assignChunkIds cs n)) = cs"
proof (induction cs arbitrary: n)
  case Nil
  show ?case by simp
next
  case (Cons c cs)
  obtain rest n2 where a: "assignChunkIds cs (n + 1) = (rest, n2)"
    by (cases "assignChunkIds cs (n + 1)") auto
  have "map chunk.truncate rest = cs" using Cons.IH [of "n + 1"] a by simp
  then show ?case
    using a by (simp add: generateId_def truncate_extend)
qed

lemma tiles_join:
  assumes "list_all (span_of opts lines) cs" and "tiles s (int (length lines)) cs"
    and "1 \<le> s" and "cs \<noteq> []"
  shows "js_join NL (map content cs) = js_join NL (drop (nat (s - 1)) lines) \<and>
         end_line (last cs) = int (length lines)"
  using assms
proof (induction cs arbitrary: s)
  case Nil
  then show ?case by simp
next
  case (Cons c cs)
  let ?n = "int (length lines)"
  let ?e = "end_line c"
  from Cons.prems have sp: "span_of opts lines c" and rest: "list_all (span_of opts lines) cs"
    and st: "start_line c = s" and se: "s \<le> ?e" and tl: "tiles (?e + 1) ?n cs"
    by auto
  from sp have en: "?e \<le> ?n"
    and cont: "content c = js_join NL (slice lines (nat (s - 1)) (nat ?e))"
    using st by (auto simp: span_of_def)
  show ?case
  proof (cases "cs = []")
    case True
    then have "?e = ?n" using tl by simp
    moreover have "slice lines (nat (s - 1)) (length lines) = drop (nat (s - 1)) lines"
      by (simp add: slice_def)
    ultimately show ?thesis using True cont by simp
  next
    case False
    have ih: "js_join NL (map content cs) = js_join NL (drop (nat ?e) lines) \<and>
        end_line (last cs) = ?n"
      using Cons.IH [OF rest tl _ False] se Cons.prems(3) by simp
    obtain d ds where cs: "cs = d # ds" using False by (cases cs) auto
    have "span_of opts lines d" and "start_line d = ?e + 1" and "?e + 1 \<le> end_line d"
      using rest tl cs by auto
    then have lt: "?e < ?n" by (auto simp: span_of_def)
    have dne: "drop (nat ?e) lines \<noteq> []" using lt se Cons.prems(3) by simp
    have "nat (s - 1) < nat ?e" and "nat (s - 1) < length lines"
      using se en Cons.prems(3) by linarith+
    then have sne: "slice lines (nat (s - 1)) (nat ?e) \<noteq> []"
      by (rule slice_nonempty)
    have a: "nat (s - 1) \<le> nat ?e" using se by simp
    have "drop (nat (s - 1)) lines =
        slice lines (nat (s - 1)) (nat ?e) @ drop (nat ?e) lines"
    proof -
      have "drop (nat (s - 1)) lines = take (nat ?e - nat (s - 1)) (drop (nat (s - 1)) lines) @
          drop (nat ?e - nat (s - 1)) (drop (nat (s - 1)) lines)"
        by (rule append_take_drop_id [symmetric])
      also have "drop (nat ?e - nat (s - 1)) (drop (nat (s - 1)) lines) = drop (nat ?e) lines"
        using a by simp
      finally show ?thesis by (simp add: slice_def)
    qed
    then have "js_join NL (drop (nat (s - 1)) lines) =
        js_join NL (slice lines (nat (s - 1)) (nat ?e)) @ NL # js_join NL (drop (nat ?e) lines)"
      using js_join_append [OF sne dne] by simp
    moreover have "js_join NL (map content (c # cs)) =
        content c @ NL # js_join NL (map content cs)"
      using False by (simp add: js_join_Cons)
    ultimately show ?thesis using cont ih False by simp
  qed
qed

lemma join_rows:
  fixes cs :: "'a chunk_scheme list"
  assumes "filter (\<lambda>g. f_project_id g = pid \<and> relative_path g = path) fs = [f]"
  shows "[c. c \<leftarrow> cs, g \<leftarrow> fs,
            file_id c = f_id g \<and> f_project_id g = pid \<and> relative_path g = path] =
         filter (\<lambda>c. file_id c = f_id f) cs"
proof -
  have inner: "concat (map (\<lambda>g. if file_id c = f_id g \<and> f_project_id g = pid \<and>
        relative_path g = path then [c] else []) fs) =
      (if file_id c = f_id f then [c] else [])" for c :: "'a chunk_scheme"
  proof -
    have "concat (map (\<lambda>g. if file_id c = f_id g \<and> f_project_id g = pid \<and>
        relative_path g = path then [c] else []) fs) =
        map (\<lambda>g. c) (filter (\<lambda>g. file_id c = f_id g)
          (filter (\<lambda>g. f_project_id g = pid \<and> relative_path g = path) fs))"
      by (induction fs) auto
    then show ?thesis using assms by simp
  qed
  have "[c. c \<leftarrow> cs, g \<leftarrow> fs,
            file_id c = f_id g \<and> f_project_id g = pid \<and> relative_path g = path] =
      concat (map (\<lambda>c. if file_id c = f_id f then [c] else []) cs)"
    by (simp only: inner)
  also have "\<dots> = filter (\<lambda>c. file_id c = f_id f) cs"
    by (induction cs) auto
  finally show ?thesis .
qed

text \<open>
  Claim C7, as the code has it. Let the store hold one row for the file and, under its
  id, the chunks of \<open>chunkFile\<close> with ids assigned. If these chunks, ordered by
  \<open>start_line\<close>, tile the lines of the file (no overlap, and no line left out by a span
  that was discarded as blank), then \<open>readFileTool\<close> returns the content of the file and
  its number of lines.
\<close>

theorem readFileTool_roundtrip:
  assumes cf: "chunkFile contents \<lparr>fileId = fid, projectId = pid, filePath = path\<rparr> = Inr cs"
    and tl: "tiles 1 (int (length (js_split NL contents))) (sort_key start_line cs)"
    and frow: "filter (\<lambda>g. f_project_id g = pid \<and> relative_path g = path) (t_files env) = [f]"
    and fid: "f_id f = fid"
    and rows: "filter (\<lambda>c. file_id c = fid) (t_chunks env) = fst (assignChunkIds cs n)"
  shows "readFileTool env pid path =
    Some \<lparr>rf_content = contents, lineCount = int (length (js_split NL contents))\<rparr>"
proof -
  let ?opts = "\<lparr>fileId = fid, projectId = pid, filePath = path\<rparr>"
  let ?lines = "js_split NL contents"
  let ?rows = "fst (assignChunkIds cs n)"
  let ?sorted = "sort_key start_line ?rows"
  have tr: "map chunk.truncate ?sorted = sort_key start_line cs"
    using sort_key_map [of start_line chunk.truncate ?rows]
    by (simp add: start_line_truncate assignChunkIds_truncate)
  have "list_all (span_of ?opts ?lines) (map chunk.truncate ?rows)"
    using chunkFile_span_of [OF cf] by (simp add: assignChunkIds_truncate)
  then have "list_all (span_of ?opts ?lines) ?rows"
    by (simp add: list_all_iff span_of_truncate)
  then have sp: "list_all (span_of ?opts ?lines) ?sorted"
    by (simp add: list_all_iff)
  have tl': "tiles 1 (int (length ?lines)) ?sorted"
    using tl tiles_truncate [of 1 "int (length ?lines)" ?sorted] tr by simp
  have ne: "?sorted \<noteq> []"
  proof
    assume "?sorted = []"
    then have "(1::int) = int (length ?lines) + 1" using tl' by simp
    then show False using js_split_not_Nil [of NL contents] by simp
  qed
  have "js_join NL (map content ?sorted) = js_join NL (drop (nat (1 - 1)) ?lines) \<and>
      end_line (last ?sorted) = int (length ?lines)"
    using tiles_join [OF sp tl' _ ne] by simp
  then have res: "js_join NL (map content ?sorted) = contents"
    and lc: "end_line (last ?sorted) = int (length ?lines)"
    by (simp_all add: js_join_split)
  have "[c. c \<leftarrow> t_chunks env, g \<leftarrow> t_files env,
          file_id c = f_id g \<and> f_project_id g = pid \<and> relative_path g = path] = ?rows"
    using join_rows [OF frow, of "t_chunks env"] fid rows by simp
  then show ?thesis using ne res lc by (simp add: readFileTool_def Let_def)
qed

text \<open>
  Claim C7 as stated fails at a Markdown file that starts with a blank line: the blank
  span before the first header is discarded, the one chunk left overlaps nothing, and the
  file read back after indexing lacks the first line.
\<close>

theorem readFileTool_drops_blank_span:
  "chunkFile blank_then_header \<lparr>fileId = 1, projectId = 0, filePath = js ''a.md''\<rparr> =
     Inr [\<lparr>file_id = 1, project_id = 0, content = js ''# A'', start_line = 2, end_line = 2,
           chunk_type = T_markdown\<rparr>] \<and>
   disjoint_spans (t_chunks (snd (handleIndex w0 env0 (Some (index_one (js ''a.md'') blank_then_header))))) \<and>
   readFileTool (snd (handleIndex w0 env0 (Some (index_one (js ''a.md'') blank_then_header))))
       0 (js ''a.md'') = Some \<lparr>rf_content = js ''# A'', lineCount = 2\<rparr> \<and>
   blank_then_header \<noteq> js ''# A''"
  by code_simp

text \<open>
  The theorem of claim C7 at a Markdown file of two sections, read back after indexing.
\<close>

theorem readFileTool_roundtrip_witness:
  "chunkFile two_sections \<lparr>fileId = 1, projectId = 0, filePath = js ''a.md''\<rparr> =
     Inr [\<lparr>file_id = 1, project_id = 0, content = js ''# A'' @ NL # js ''x'', start_line = 1,
           end_line = 2, chunk_type = T_markdown\<rparr>,
          \<lparr>file_id = 1, project_id = 0, content = js ''# B'' @ NL # js ''y'', start_line = 3,
           end_line = 4, chunk_type = T_markdown\<rparr>] \<and>
   readFileTool (snd (handleIndex w0 env0 (Some (index_one (js ''a.md'') two_sections))))
       0 (js ''a.md'') = Some \<lparr>rf_content = two_sections, lineCount = 4\<rparr>"
proof -
  let ?env = "snd (handleIndex w0 env0 (Some (index_one (js ''a.md'') two_sections)))"
  let ?cs = "[\<lparr>file_id = 1, project_id = 0, content = js ''# A'' @ NL # js ''x'', start_line = 1,
           end_line = 2, chunk_type = T_markdown\<rparr>,
          \<lparr>file_id = 1, project_id = 0, content = js ''# B'' @ NL # js ''y'', start_line = 3,
           end_line = 4, chunk_type = T_markdown\<rparr>]"
  let ?f = "\<lparr>f_id = 1, f_project_id = 0, relative_path = js ''a.md'', content_hash = [],
            chunk_count = 2, indexed_at = Some 1700000000\<rparr>"
  have cf: "chunkFile two_sections \<lparr>fileId = 1, projectId = 0, filePath = js ''a.md''\<rparr> = Inr ?cs"
    by code_simp
  have tl: "tiles 1 (int (length (js_split NL two_sections))) (sort_key start_line ?cs)"
    by code_simp
  have frow: "filter (\<lambda>g. f_project_id g = 0 \<and> relative_path g = js ''a.md'') (t_files ?env) = [?f]"
    by code_simp
  have fid: "f_id ?f = 1" by simp
  have rows: "filter (\<lambda>c. file_id c = 1) (t_chunks ?env) = fst (assignChunkIds ?cs 2)"
    by code_simp
  have n: "int (length (js_split NL two_sections)) = 4" by code_simp
  show ?thesis
    using readFileTool_roundtrip [OF cf tl frow fid rows] cf n by simp
qed

section \<open>The daily quota of generateEmbeddings\<close>

text \<open>
  Claim C3, as the code has it. For a batch that is not empty, if the stored counter plus
  the number of texts exceeds \<open>DAILY_EMBEDDING_LIMIT\<close>, \<open>generateEmbeddings\<close> throws the
  quota error and leaves everything as it was: no embedding call is logged and the
  counter is unchanged.
\<close>

theorem generateEmbeddings_quota:
  assumes "texts \<noteq> []"
    and "parseInt (kv_get_or_zero env (embedding_key w)) = Some c"
    and "DAILY_EMBEDDING_LIMIT < c + int (length texts)"
  shows "generateEmbeddings w env texts = (Inl DailyLimit, env)"
  using assms by (simp add: generateEmbeddings_def embedding_key_def Let_def)

lemma seeded_count: "parseInt (kv_get_or_zero (seeded (js ''6998'')) (embedding_key w0)) = Some 6998"
  by code_simp

text \<open>
  The theorem of claim C3 with the counter seeded at the limit minus 2 and a batch of 5
  texts.
\<close>

theorem generateEmbeddings_quota_witness:
  "five_texts \<noteq> [] \<and>
   parseInt (kv_get_or_zero (seeded (js ''6998'')) (embedding_key w0)) =
     Some (DAILY_EMBEDDING_LIMIT - 2) \<and>
   DAILY_EMBEDDING_LIMIT < (DAILY_EMBEDDING_LIMIT - 2) + int (length five_texts) \<and>
   generateEmbeddings w0 (seeded (js ''6998'')) five_texts = (Inl DailyLimit, seeded (js ''6998''))"
proof -
  have a: "five_texts \<noteq> []" by (simp add: five_texts_def)
  have b: "parseInt (kv_get_or_zero (seeded (js ''6998'')) (embedding_key w0)) =
      Some (DAILY_EMBEDDING_LIMIT - 2)"
    using seeded_count by (simp add: DAILY_EMBEDDING_LIMIT_def)
  have c: "DAILY_EMBEDDING_LIMIT < (DAILY_EMBEDDING_LIMIT - 2) + int (length five_texts)"
    by (simp add: five_texts_def)
  show ?thesis using generateEmbeddings_quota [OF a b c] a b c by blast
qed

lemma seeded_over: "parseInt (kv_get_or_zero (seeded (js ''7001'')) (embedding_key w0)) = Some 7001"
  by code_simp

text \<open>
  Claim C3 as stated fails at the empty batch: with the counter seeded over the limit,
  the counter plus 0 exceeds the limit, and \<open>generateEmbeddings\<close> returns the empty
  array before it reads the counter.
\<close>

theorem generateEmbeddings_empty_batch_over_quota:
  "parseInt (kv_get_or_zero (seeded (js ''7001'')) (embedding_key w0)) = Some 7001 \<and>
   DAILY_EMBEDDING_LIMIT < 7001 + int (length ([] :: jsstring list)) \<and>
   generateEmbeddings w0 (seeded (js ''7001'')) [] = (Inr [], seeded (js ''7001''))"
  using seeded_over by (simp add: generateEmbeddings_def DAILY_EMBEDDING_LIMIT_def)

section \<open>The counts of upsertVectors\<close>

lemma batches_from_props:
  "0 < sz \<Longrightarrow> concat (batches_from sz i xs) = drop i xs \<and>
     list_all (\<lambda>b. 0 < length b \<and> length b \<le> sz) (batches_from sz i xs)"
proof (induction sz i xs rule: batches_from.induct)
  case (1 sz i xs)
  show ?case
  proof (cases "i < length xs")
    case True
    have ih: "concat (batches_from sz (i + sz) xs) = drop (i + sz) xs \<and>
        list_all (\<lambda>b. 0 < length b \<and> length b \<le> sz) (batches_from sz (i + sz) xs)"
      using "1.IH" "1.prems" True by simp
    have "take sz (drop i xs) @ drop (i + sz) xs = drop i xs"
      using append_take_drop_id [of sz "drop i xs"] by (simp add: add.commute)
    then show ?thesis
      using ih True "1.prems"
      by (subst batches_from.simps, subst (2) batches_from.simps) (simp add: slice_def)
  next
    case False
    then show ?thesis by (subst batches_from.simps, subst (2) batches_from.simps) simp
  qed
qed

lemma upsertVectors_step_eq:
  "upsertVectors_step w (env, ins, errs) b =
     (if vz_ok w (length (vz_log env))
      then (env\<lparr>VECTORIZE := filter (\<lambda>v. v_id v \<notin> set (map v_id b)) (VECTORIZE env) @ b,
                vz_log := vz_log env @ [Upsert b True]\<rparr>, ins + length b, errs)
      else (env\<lparr>vz_log := vz_log env @ [Upsert b False]\<rparr>, ins, errs + length b))"
  by (simp add: upsertVectors_step_def VECTORIZE_upsert_def)

lemma upsertVectors_foldl:
  "foldl (upsertVectors_step w) (env, ins, errs) bs =
     (env', ins', errs') \<Longrightarrow>
   vz_log env' = vz_log env @
       map (\<lambda>(b, ok). Upsert b ok) (zip bs (upsert_outcomes w (length (vz_log env)) bs)) \<and>
   ins' = ins + sum_list (map (\<lambda>(b, ok). if ok then length b else 0)
            (zip bs (upsert_outcomes w (length (vz_log env)) bs))) \<and>
   errs' = errs + sum_list (map (\<lambda>(b, ok). if ok then 0 else length b)
            (zip bs (upsert_outcomes w (length (vz_log env)) bs))) \<and>
   t_projects env' = t_projects env \<and> t_files env' = t_files env \<and>
   t_chunks env' = t_chunks env \<and> t_messages env' = t_messages env \<and> KV env' = KV env \<and>
   ai_log env' = ai_log env \<and> uuids env' = uuids env"
proof (induction bs arbitrary: env ins errs)
  case Nil
  then show ?case by simp
next
  case (Cons b bs)
  show ?case
  proof (cases "vz_ok w (length (vz_log env))")
    case True
    let ?e = "env\<lparr>VECTORIZE := filter (\<lambda>v. v_id v \<notin> set (map v_id b)) (VECTORIZE env) @ b,
                vz_log := vz_log env @ [Upsert b True]\<rparr>"
    have "foldl (upsertVectors_step w) (?e, ins + length b, errs) bs = (env', ins', errs')"
      using Cons.prems True by (simp add: upsertVectors_step_eq)
    from Cons.IH [OF this] show ?thesis using True by simp
  next
    case False
    let ?e = "env\<lparr>vz_log := vz_log env @ [Upsert b False]\<rparr>"
    have "foldl (upsertVectors_step w) (?e, ins, errs + length b) bs = (env', ins', errs')"
      using Cons.prems False by (simp add: upsertVectors_step_eq)
    from Cons.IH [OF this] show ?thesis using False by simp
  qed
qed

lemma sum_outcomes:
  "length oks = length bs \<Longrightarrow>
   sum_list (map (\<lambda>(b, ok). if ok then length b else 0) (zip bs oks)) +
   sum_list (map (\<lambda>(b, ok). if ok then 0 else length b) (zip bs oks)) = length (concat bs)"
  by (induction bs oks rule: list_induct2') auto

lemma length_upsert_outcomes: "length (upsert_outcomes w k bs) = length bs"
  by (induction bs arbitrary: k) auto

lemma upsertVectors_batches:
  "concat (batches_from BATCH_SIZE 0 vectors) = vectors \<and>
   list_all (\<lambda>b. 0 < length b \<and> length b \<le> 100) (batches_from BATCH_SIZE 0 vectors)"
  using batches_from_props [of BATCH_SIZE 0 vectors] by (simp add: BATCH_SIZE_def)

lemma upsertVectors_total:
  assumes "upsertVectors w env vectors = (env', inserted, errors)"
  shows "inserted + errors = length vectors"
proof -
  let ?bs = "batches_from BATCH_SIZE 0 vectors"
  let ?oks = "upsert_outcomes w (length (vz_log env)) ?bs"
  note f = upsertVectors_foldl [OF assms [unfolded upsertVectors_def]]
  have "inserted + errors = length (concat ?bs)"
    using f sum_outcomes [of ?oks ?bs] by (simp add: length_upsert_outcomes)
  then show ?thesis using upsertVectors_batches [of vectors] by simp
qed

text \<open>
  Claim C10. \<open>upsertVectors\<close> cuts the records into batches of at most 100 that together
  are the input, attempts every batch in order whatever the outcome of the batches before
  (the log of the vector index grows by one entry per batch), counts the whole size of a
  batch as inserted when its upsert succeeds and as errors when it throws, and so
  \<open>inserted + errors\<close> is the number of records.
\<close>

theorem upsertVectors_counts:
  assumes "upsertVectors w env vectors = (env', inserted, errors)"
  shows "inserted + errors = length vectors \<and>
     concat (batches_from BATCH_SIZE 0 vectors) = vectors \<and>
     list_all (\<lambda>b. 0 < length b \<and> length b \<le> 100) (batches_from BATCH_SIZE 0 vectors) \<and>
     vz_log env' = vz_log env @
       map (\<lambda>(b, ok). Upsert b ok)
         (zip (batches_from BATCH_SIZE 0 vectors)
            (upsert_outcomes w (length (vz_log env)) (batches_from BATCH_SIZE 0 vectors))) \<and>
     inserted = sum_list (map (\<lambda>(b, ok). if ok then length b else 0)
         (zip (batches_from BATCH_SIZE 0 vectors)
            (upsert_outcomes w (length (vz_log env)) (batches_from BATCH_SIZE 0 vectors)))) \<and>
     errors = sum_list (map (\<lambda>(b, ok). if ok then 0 else length b)
         (zip (batches_from BATCH_SIZE 0 vectors)
            (upsert_outcomes w (length (vz_log env)) (batches_from BATCH_SIZE 0 vectors))))"
  using upsertVectors_foldl [OF assms [unfolded upsertVectors_def]]
    upsertVectors_total [OF assms] upsertVectors_batches [of vectors]
  by simp

section \<open>A project indexed within the hour\<close>

text \<open>
  Claim C9. For a well-formed request on an existing project, with neither \<open>force\<close> nor
  \<open>append\<close>, whose \<open>last_indexed_at\<close> is less than 3600 seconds before the clock,
  \<open>handleIndex\<close> answers that the project was indexed recently and the store, the vector
  index, the cache and the log of embedding calls are as before. The clock reads at least
  one hour after the epoch, so that a \<open>last_indexed_at\<close> within the hour is not 0.
\<close>

theorem handleIndex_recently_indexed:
  assumes "rq_project_path body = Some projectPath" and "projectPath \<noteq> []"
    and "rq_files body = Some fs" and "fs \<noteq> []"
    and "find (\<lambda>p. p_path p = projectPath) (t_projects env) = Some project"
    and "\<not> rq_force body" and "\<not> rq_append body"
    and "last_indexed_at project = Some t"
    and "now w - 1000 * t < 3600000"
    and "3600000 \<le> now w"
  shows "handleIndex w env (Some body) = (RecentlyIndexed (p_id project) t, env)"
proof -
  have "t \<noteq> 0" using assms(9,10) by auto
  then show ?thesis
    using assms by (simp add: handleIndex_def prepareProject_def Let_def)
qed

section \<open>Failures of embedding batches\<close>

lemma generateEmbeddings_frame:
  assumes "generateEmbeddings w env texts = (r, env')"
  shows "t_projects env' = t_projects env \<and> t_files env' = t_files env \<and>
     t_chunks env' = t_chunks env \<and> t_messages env' = t_messages env \<and>
     VECTORIZE env' = VECTORIZE env \<and> vz_log env' = vz_log env \<and> uuids env' = uuids env"
  using assms
  by (auto simp: generateEmbeddings_def Let_def split: if_splits option.splits)

lemma embed_step_eq:
  "embed_step w pid frs (env, vr) b =
     (snd (generateEmbeddings w env (map content b)),
      vr @ contribution pid frs (b, fst (generateEmbeddings w env (map content b))))"
  by (cases "generateEmbeddings w env (map content b)")
    (auto simp: embed_step_def contribution_def split: sum.splits)

lemma embed_foldl:
  "foldl (embed_step w pid frs) (env, vr) bs = (env', vr') \<Longrightarrow>
   vr' = vr @ concat (map (contribution pid frs) (zip bs (embed_outcomes w env bs))) \<and>
   t_projects env' = t_projects env \<and> t_files env' = t_files env \<and>
   t_chunks env' = t_chunks env \<and> t_messages env' = t_messages env \<and>
   VECTORIZE env' = VECTORIZE env \<and> vz_log env' = vz_log env \<and> uuids env' = uuids env"
proof (induction bs arbitrary: env vr)
  case Nil
  then show ?case by simp
next
  case (Cons b bs)
  obtain r e1 where g: "generateEmbeddings w env (map content b) = (r, e1)"
    by (cases "generateEmbeddings w env (map content b)") auto
  have "foldl (embed_step w pid frs) (e1, vr @ contribution pid frs (b, r)) bs = (env', vr')"
    using Cons.prems g by (simp add: embed_step_eq)
  from Cons.IH [OF this] show ?case
    using g generateEmbeddings_frame [OF g] by simp
qed

lemma length_contribution:
  "length (contribution pid frs (b, r)) = (if isl r then 0 else length b)"
  by (cases r) (simp_all add: contribution_def)

lemma length_contributions:
  "length (concat (map (contribution pid frs) brs)) =
     sum_list (map (\<lambda>(b, r). if isl r then 0 else length b) brs)"
  by (induction brs) (auto simp: length_contribution)

lemma all_upserts_ok:
  "\<forall>k. vz_ok w k \<Longrightarrow>
   sum_list (map (\<lambda>(b, ok). if ok then 0 else length b) (zip bs (upsert_outcomes w k bs))) = 0"
  by (induction bs arbitrary: k) auto

lemma updateProject_status:
  "map p_status (filter (\<lambda>p. p_id p = pid) (t_projects (updateProject env pid am st n ts))) =
     map (\<lambda>p. st) (filter (\<lambda>p. p_id p = pid) (t_projects env))"
  by (induction "t_projects env" arbitrary: env) (auto simp: updateProject_def filter_map comp_def)


text \<open>
  Claim C2, as the code has it. In the embedding stage of \<open>handleIndex\<close>, a batch whose
  embedding throws adds no vector and is not counted. The chunk and file rows stay as
  stored; \<open>inserted + errors\<close> is the number of chunks in the batches whose embedding
  succeeded, each batch being embedded from the state the batch before left, whatever its
  outcome; the status reported and the status of the project row are \<open>error\<close> exactly
  when \<open>errors\<close>, the count of \<open>upsertVectors\<close>, is not 0; and when every upsert
  succeeds \<open>errors\<close> is 0, so that the run ends \<open>ready\<close> whatever embedding batches
  failed.
\<close>

theorem embedFiles_counts_upsert_failures_only:
  assumes "embedFiles w env pid appendMode fileRecords allChunks nfiles =
             (IndexResult pr inserted errors, env')"
  shows "t_chunks env' = t_chunks env \<and> t_files env' = t_files env \<and>
     inserted + errors =
       sum_list (map (\<lambda>(b, r). if isl r then 0 else length b)
         (zip (batches_from EMBEDDING_BATCH_SIZE 0 allChunks)
            (embed_outcomes w env (batches_from EMBEDDING_BATCH_SIZE 0 allChunks)))) \<and>
     pr_status pr = (if errors = 0 then P_complete else P_error) \<and>
     map p_status (filter (\<lambda>p. p_id p = pid) (t_projects env')) =
       map (\<lambda>p. if errors = 0 then S_ready else S_error)
         (filter (\<lambda>p. p_id p = pid) (t_projects env)) \<and>
     ((\<forall>k. vz_ok w k) \<longrightarrow> errors = 0)"
proof -
  let ?bs = "batches_from EMBEDDING_BATCH_SIZE 0 allChunks"
  obtain env4 vrs where e: "foldl (embed_step w pid fileRecords) (env, []) ?bs = (env4, vrs)"
    by (cases "foldl (embed_step w pid fileRecords) (env, []) ?bs") auto
  obtain env5 ins errs where u: "upsertVectors w env4 vrs = (env5, ins, errs)"
    by (cases "upsertVectors w env4 vrs") auto
  from assms have pr: "pr_status pr = (if errs = 0 then P_complete else P_error)"
    and ie: "inserted = ins" "errors = errs"
    and env': "env' = updateProject env5 pid appendMode (if errs = 0 then S_ready else S_error)
        (int (length fileRecords)) (now w div 1000)"
    by (auto simp: embedFiles_def e u)
  note ef = embed_foldl [OF e]
  note uf = upsertVectors_foldl [OF u [unfolded upsertVectors_def]]
  note uc = upsertVectors_total [OF u]
  have len: "length vrs = sum_list (map (\<lambda>(b, r). if isl r then 0 else length b)
      (zip ?bs (embed_outcomes w env ?bs)))"
    using ef length_contributions [of pid fileRecords "zip ?bs (embed_outcomes w env ?bs)"]
    by simp
  have frame: "t_chunks env' = t_chunks env \<and> t_files env' = t_files env"
    using ef uf by (simp add: env' updateProject_def)
  have st: "map p_status (filter (\<lambda>p. p_id p = pid) (t_projects env')) =
       map (\<lambda>p. if errs = 0 then S_ready else S_error)
         (filter (\<lambda>p. p_id p = pid) (t_projects env))"
    using ef uf by (simp add: env' updateProject_status)
  have ok: "errs = 0" if "\<forall>k. vz_ok w k"
    using uf all_upserts_ok [OF that] by simp
  show ?thesis using frame len uc st pr ok ie by simp
qed

section \<open>Append mode\<close>













lemma file_key_indexed_at: "file_key (f\<lparr>indexed_at := t\<rparr>) = file_key f"
  by (simp add: file_key_def)

lemma file_keys_indexed_at:
  "map file_key (map (\<lambda>f. f\<lparr>indexed_at := t\<rparr>) fs) = map file_key fs"
  by (simp add: file_key_indexed_at)












text \<open>
  The new paths have to be distinct: when a request names the new path \<open>c.ts\<close> twice,
  both files pass the filter, the batch of \<open>INSERT INTO files\<close> breaks
  \<open>UNIQUE(project_id, relative_path)\<close>, and the handler answers with status 500 and
  stores no row.
\<close>

lemma handleIndex_append_repeated_path:
  "new_files (snd (handleIndex w1 env0 (Some index_ab))) 0
     [\<lparr>in_path = js ''c.ts'', in_content = js ''C''\<rparr>,
      \<lparr>in_path = js ''c.ts'', in_content = js ''C''\<rparr>] =
     [\<lparr>in_path = js ''c.ts'', in_content = js ''C''\<rparr>,
      \<lparr>in_path = js ''c.ts'', in_content = js ''C''\<rparr>] \<and>
   fst (handleIndex w1 (snd (handleIndex w1 env0 (Some index_ab))) (Some append_cc)) =
     ServerError ConstraintError \<and>
   map relative_path
     (t_files (snd (handleIndex w1 (snd (handleIndex w1 env0 (Some index_ab))) (Some append_cc)))) =
     [js ''a.ts'', js ''b.ts'']"
  by code_simp

section \<open>Runs of the handlers on the concrete inputs\<close>

text \<open>
  Claim C2 as stated fails: indexing one file in a world where every embedding call
  throws, the only batch fails (the call is logged and returns nothing), and the response
  still reports \<open>complete\<close> with 0 errors and the project row ends \<open>ready\<close>.
\<close>

theorem handleIndex_failed_embedding_ends_ready:
  "ai_run w0 0 [js ''hi''] = None \<and>
   ai_log (snd (handleIndex w0 env0 (Some (index_one (js ''a.txt'') (js ''hi''))))) = [[js ''hi'']] \<and>
   fst (handleIndex w0 env0 (Some (index_one (js ''a.txt'') (js ''hi'')))) =
     IndexResult \<lparr>pr_project_id = 0, pr_status = P_complete, total_files = 1,
                   processed_files = 1, total_chunks = 1, pr_error = None\<rparr> 0 0 \<and>
   map p_status (t_projects (snd (handleIndex w0 env0 (Some (index_one (js ''a.txt'') (js ''hi'')))))) =
     [S_ready]"
  by code_simp

text \<open>
  The theorem of claim C2 at 51 chunks, in a world where the first embedding call throws:
  the first batch of 50 fails, the second batch of one chunk is still embedded and
  upserted, and the run ends \<open>complete\<close> with 1 vector inserted and 0 errors.
\<close>

theorem embedFiles_counts_upsert_failures_only_witness:
  "fst (embedFiles w1 env0 0 False [] fifty_one_chunks 1) =
     IndexResult \<lparr>pr_project_id = 0, pr_status = P_complete, total_files = 1,
                   processed_files = 1, total_chunks = 51, pr_error = None\<rparr> 1 0 \<and>
   map isl (embed_outcomes w1 env0 (batches_from EMBEDDING_BATCH_SIZE 0 fifty_one_chunks)) =
     [True, False] \<and>
   t_chunks (snd (embedFiles w1 env0 0 False [] fifty_one_chunks 1)) = t_chunks env0 \<and>
   (1::nat) + 0 =
     sum_list (map (\<lambda>(b, r). if isl r then 0 else length b)
       (zip (batches_from EMBEDDING_BATCH_SIZE 0 fifty_one_chunks)
          (embed_outcomes w1 env0 (batches_from EMBEDDING_BATCH_SIZE 0 fifty_one_chunks))))"
proof -
  let ?r = "embedFiles w1 env0 0 False [] fifty_one_chunks 1"
  let ?pr = "\<lparr>pr_project_id = 0, pr_status = P_complete, total_files = 1,
                   processed_files = 1, total_chunks = 51, pr_error = None\<rparr>"
  have f: "fst ?r = IndexResult ?pr 1 0" by code_simp
  then have h: "?r = (IndexResult ?pr 1 0, snd ?r)" by (simp add: prod_eq_iff)
  have oc: "map isl (embed_outcomes w1 env0 (batches_from EMBEDDING_BATCH_SIZE 0 fifty_one_chunks)) =
     [True, False]"
    by code_simp
  show ?thesis
    using embedFiles_counts_upsert_failures_only [OF h] f oc by blast
qed

text \<open>
  The theorem of claim C9 at a second request for a project indexed at the same clock
  reading: the answer is the recent one and the state is the state after the first
  request.
\<close>

theorem handleIndex_recently_indexed_witness:
  "fst (handleIndex w0 (snd (handleIndex w0 env0 (Some (index_one (js ''a.txt'') (js ''hi'')))))
         (Some (index_one (js ''a.txt'') (js ''hi'')))) = RecentlyIndexed 0 1700000000 \<and>
   snd (handleIndex w0 (snd (handleIndex w0 env0 (Some (index_one (js ''a.txt'') (js ''hi'')))))
         (Some (index_one (js ''a.txt'') (js ''hi'')))) =
     snd (handleIndex w0 env0 (Some (index_one (js ''a.txt'') (js ''hi''))))"
proof -
  let ?rq = "index_one (js ''a.txt'') (js ''hi'')"
  let ?env1 = "snd (handleIndex w0 env0 (Some ?rq))"
  let ?project = "\<lparr>p_id = 0, p_name = js ''p'', p_path = js ''/p'', p_status = S_ready,
      file_count = 1, last_indexed_at = Some 1700000000\<rparr>"
  let ?fs = "[\<lparr>in_path = js ''a.txt'', in_content = js ''hi''\<rparr>]"
  have h1: "rq_project_path ?rq = Some (js ''/p'')" by (simp add: index_one_def)
  have h2: "js ''/p'' \<noteq> []" by (simp add: js_def)
  have h3: "rq_files ?rq = Some ?fs" by (simp add: index_one_def)
  have h4: "?fs \<noteq> []" by simp
  have h5: "find (\<lambda>p. p_path p = js ''/p'') (t_projects ?env1) = Some ?project" by code_simp
  have h6: "\<not> rq_force ?rq" and h7: "\<not> rq_append ?rq" by (simp_all add: index_one_def)
  have h8: "last_indexed_at ?project = Some 1700000000" by simp
  have h9: "now w0 - 1000 * 1700000000 < 3600000" by (simp add: w0_def)
  have h10: "3600000 \<le> now w0" by (simp add: w0_def)
  show ?thesis
    using handleIndex_recently_indexed [OF h1 h2 h3 h4 h5 h6 h7 h8 h9 h10] by simp
qed

text \<open>
  The theorem of claim C10 at 150 records, in a world where the first call to the vector
  index fails: the batch of 100 counts as errors, the batch of 50 is still attempted and
  counts as inserted.
\<close>

theorem upsertVectors_counts_witness:
  "snd (upsertVectors w2 env0 vectors150) = (50, 100) \<and>
   fst (snd (upsertVectors w2 env0 vectors150)) + snd (snd (upsertVectors w2 env0 vectors150)) =
     length vectors150 \<and>
   map length (batches_from BATCH_SIZE 0 vectors150) = [100, 50] \<and>
   upsert_outcomes w2 (length (vz_log env0)) (batches_from BATCH_SIZE 0 vectors150) =
     [False, True]"
proof -
  let ?r = "upsertVectors w2 env0 vectors150"
  have h: "?r = (fst ?r, fst (snd ?r), snd (snd ?r))" by simp
  have v: "snd ?r = (50, 100)" by code_simp
  have b: "map length (batches_from BATCH_SIZE 0 vectors150) = [100, 50]" by code_simp
  have o: "upsert_outcomes w2 (length (vz_log env0)) (batches_from BATCH_SIZE 0 vectors150) =
     [False, True]" by code_simp
  show ?thesis using upsertVectors_counts [OF h] v b o by blast
qed

text \<open>
  Claim C5 (the history is the last 10 messages of the conversation): the code run at a
  conversation of 12 messages. The query orders by \<open>created_at\<close> ascending and cuts at
  10, so it loads the messages 1 to 10, the oldest; the messages 11 and 12 are never
  loaded, and the "last 6 messages" that \<open>generateRAGResponse\<close> then takes are the
  messages 5 to 10.
\<close>

theorem conversationHistory_loads_oldest_ten:
  "map snd (conversationHistory (chat 12) 7) = map digits [1..<11] \<and>
   map snd (promptHistory (conversationHistory (chat 12) 7)) = map digits [5..<11] \<and>
   digits 12 \<notin> set (map snd (conversationHistory (chat 12) 7))"
  by code_simp

end
